theory Spec2Isabelle
  imports Main "HOL-Library.Word" "HOL-Library.Signed_Division"
begin

section \<open>The inzown-btn daemon (src/inzown-btn.c)\<close>

text \<open>
  A shallow embedding of the button daemon: the seconds quantizer, the action-name
  formatter, the configuration reader, the action resolver, the gesture loop of
  \<open>run\<close> and the start-up code of \<open>main\<close> that chooses the configuration file.
  Definitions keep the names of the C source. Globals of the source
  (\<open>g_full_time\<close>, \<open>g_offset_time\<close>, \<open>g_click_count_limit\<close>, \<open>g_config_path\<close>)
  are parameters of the functions that read them.
\<close>

subsection \<open>C integers\<close>

text \<open>
  \<open>int\<close> and \<open>unsigned\<close> are 32 bits wide on the daemon's targets, \<open>timestamp_ms_t\<close> is
  \<open>unsigned long long\<close>. A conversion between \<open>int\<close> and \<open>unsigned\<close> keeps the bits, so
  both are the same word type, read with \<open>sint\<close> or \<open>unat\<close>. Addition, subtraction and
  multiplication wrap around (for \<open>int\<close> ISO C leaves the overflow undefined; the model
  takes the two's complement result the hardware computes). Division and remainder of
  \<open>int\<close> truncate towards zero: \<open>sdiv\<close> and \<open>smod\<close> on the signed readings.
\<close>

type_synonym c_int = "32 word"
type_synonym c_uint = "32 word"
type_synonym timestamp_ms_t = "64 word"

definition c_div :: "c_int \<Rightarrow> c_int \<Rightarrow> c_int" where
  "c_div a b = word_of_int (sint a sdiv sint b)"

definition c_mod :: "c_int \<Rightarrow> c_int \<Rightarrow> c_int" where
  "c_mod a b = word_of_int (sint a smod sint b)"

definition CLICK_TIMEOUT_MS :: nat where
  "CLICK_TIMEOUT_MS = 400"

definition HOLD_PRESS_TIMEOUT_MS :: nat where
  "HOLD_PRESS_TIMEOUT_MS = CLICK_TIMEOUT_MS"

definition MAX_PATH_LENGTH :: nat where
  "MAX_PATH_LENGTH = 4096"

definition ACTION_NAME_SIZE :: nat where
  "ACTION_NAME_SIZE = 11"

definition ABSOLUTE_MAX_CLICK :: c_uint where
  "ABSOLUTE_MAX_CLICK = 99"

definition ABSOLUTE_MAX_HOLD :: c_uint where
  "ABSOLUTE_MAX_HOLD = 99"

subsection \<open>The seconds quantizer\<close>

text \<open>\<open>seconds\<close>, lines 97 to 117; the two flags are the globals it reads.\<close>

definition seconds :: "bool \<Rightarrow> bool \<Rightarrow> c_int \<Rightarrow> c_int" where
  "seconds g_full_time g_offset_time ticks =
     (if g_offset_time then
        (if g_full_time then c_div (ticks + 500) 1000
         else (let sec = c_div ticks 1000 in sec + c_mod (sec + 1) 2))
      else
        (if g_full_time then c_div ticks 1000
         else 1 + c_div (ticks - 1000) 2000 * 2))"

subsection \<open>The action-name formatter\<close>

datatype action_e = A_DOWN | A_UP | A_CLICK | A_HOLD | A_COUNT

definition DOWN_VALUE_NAME :: string where
  "DOWN_VALUE_NAME = ''DOWN''"

definition UP_VALUE_NAME :: string where
  "UP_VALUE_NAME = ''UP''"

definition CLICK_OTHER_VALUE_NAME :: string where
  "CLICK_OTHER_VALUE_NAME = ''CLICK_OTHER''"

definition HOLD_OTHER_VALUE_NAME :: string where
  "HOLD_OTHER_VALUE_NAME = ''HOLD_OTHER''"

definition CLICK_COUNT_LIMIT_VALUE_NAME :: string where
  "CLICK_COUNT_LIMIT_VALUE_NAME = ''CLICK_COUNT_LIMIT''"

text \<open>The conversion \<open>%u\<close> of \<open>printf\<close>: the decimal digits of an unsigned value.\<close>

definition digit :: "nat \<Rightarrow> char" where
  "digit d = ''0123456789'' ! d"

function fmt_u :: "nat \<Rightarrow> string" where
  "fmt_u n = (if n < 10 then [digit n] else fmt_u (n div 10) @ [digit (n mod 10)])"
  by pat_completeness auto
termination
  by (relation "measure id") auto

text \<open>
  \<open>get_action_name\<close>, lines 271 to 306: the name left in \<open>action_name\<close>. The value
  \<open>A_COUNT\<close> stands for an action outside the four kinds (the \<open>default\<close> branch), which
  leaves the zeroed buffer. \<open>seconds\<close> takes the unsigned hold time as an \<open>int\<close> and its
  result is compared as an \<open>unsigned\<close>.
\<close>

definition get_action_name :: "bool \<Rightarrow> bool \<Rightarrow> action_e \<Rightarrow> c_uint \<Rightarrow> c_uint \<Rightarrow> string" where
  "get_action_name g_full_time g_offset_time action click_count hold_time =
     (case action of
        A_DOWN \<Rightarrow> DOWN_VALUE_NAME
      | A_UP \<Rightarrow> UP_VALUE_NAME
      | A_CLICK \<Rightarrow>
          (if click_count \<le> ABSOLUTE_MAX_CLICK then ''CLICK_'' @ fmt_u (unat click_count)
           else CLICK_OTHER_VALUE_NAME)
      | A_HOLD \<Rightarrow>
          (let timer = seconds g_full_time g_offset_time hold_time in
           if timer \<le> ABSOLUTE_MAX_HOLD then ''HOLD_'' @ fmt_u (unat timer) @ ''S''
           else HOLD_OTHER_VALUE_NAME)
      | A_COUNT \<Rightarrow> [])"

subsection \<open>The gesture loop\<close>

text \<open>
  The loop of \<open>run\<close>, lines 738 to 827. Its local variables are the state. What one
  iteration gets from \<open>poll\<close>, the clock and the two descriptors is a \<open>wakeup\<close>; what it
  calls out (the four handlers, which call \<open>execute_action\<close>, and \<open>timerfd_settime\<close>)
  is a list of \<open>callout\<close>s in the order of the calls.
\<close>

record gesture_state =
  pressed_at :: timestamp_ms_t
  timer_running :: bool
  button_down :: bool
  num_pressed :: c_uint

datatype button_input =
    ButtonReadZero
  | ButtonRewindFailed
  | ButtonLevel nat

datatype timer_input = TimerExpired | TimerShortRead

datatype wakeup =
    PollFailed
  | PollNothing
  | PollReady "(timestamp_ms_t \<times> button_input) option" "timer_input option"

datatype callout =
    OnDown
  | OnUp
  | OnHold c_uint timestamp_ms_t
  | OnTimesClicked c_uint
  | TimerSettime nat

datatype 'a loop_step = Continue 'a | Break | ReturnErrno

definition start_state :: gesture_state where
  "start_state = \<lparr>pressed_at = 0, timer_running = False, button_down = False, num_pressed = 0\<rparr>"

text \<open>
  The branch for \<open>POLLPRI\<close> on the button, lines 754 to 814. \<open>ButtonLevel v\<close> carries what
  \<open>strtoul\<close> made of the value file; the timer is armed with a nanosecond count.
\<close>

definition button_changed ::
  "c_uint \<Rightarrow> gesture_state \<Rightarrow> timestamp_ms_t \<Rightarrow> button_input \<Rightarrow> gesture_state loop_step \<times> callout list" where
  "button_changed g_click_count_limit s timestamp inp =
     (case inp of
        ButtonReadZero \<Rightarrow> (Break, [])
      | ButtonRewindFailed \<Rightarrow> (Break, [])
      | ButtonLevel pressed \<Rightarrow>
          (if pressed \<noteq> 0 then
             (let n = (if \<not> timer_running s then 1
                       else if g_click_count_limit = 0 \<or> num_pressed s < g_click_count_limit
                            then num_pressed s + 1
                            else num_pressed s)
              in (Continue (s\<lparr>button_down := True, num_pressed := n, timer_running := True,
                                pressed_at := timestamp\<rparr>),
                  [OnDown, TimerSettime (CLICK_TIMEOUT_MS * 1000 * 1000)]))
           else if button_down s then
             (Continue (s\<lparr>button_down := False\<rparr>),
              OnUp #
              (if pressed_at s \<noteq> 0 \<and> timestamp - pressed_at s \<ge> of_nat HOLD_PRESS_TIMEOUT_MS
               then [OnHold (num_pressed s) (timestamp - pressed_at s)] else []))
           else (Continue s, [])))"

text \<open>The branch for \<open>POLLIN\<close> on the timer, lines 815 to 827.\<close>

definition timer_timed_out ::
  "gesture_state \<Rightarrow> timer_input \<Rightarrow> gesture_state loop_step \<times> callout list" where
  "timer_timed_out s inp =
     (case inp of
        TimerShortRead \<Rightarrow> (ReturnErrno, [])
      | TimerExpired \<Rightarrow>
          (Continue (s\<lparr>timer_running := False\<rparr>),
           (if \<not> button_down s then [OnTimesClicked (num_pressed s)] else [])))"

text \<open>One pass through the body of \<open>for (;;)\<close>: the button branch, then the timer branch.\<close>

definition iteration ::
  "c_uint \<Rightarrow> gesture_state \<Rightarrow> wakeup \<Rightarrow> gesture_state loop_step \<times> callout list" where
  "iteration g_click_count_limit s w =
     (case w of
        PollFailed \<Rightarrow> (Break, [])
      | PollNothing \<Rightarrow> (Continue s, [])
      | PollReady b t \<Rightarrow>
          (case (case b of None \<Rightarrow> (Continue s, [])
                 | Some (timestamp, inp) \<Rightarrow> button_changed g_click_count_limit s timestamp inp) of
             (Continue s1, out1) \<Rightarrow>
               (case t of None \<Rightarrow> (Continue s1, out1)
                | Some inp \<Rightarrow> (case timer_timed_out s1 inp of (r, out2) \<Rightarrow> (r, out1 @ out2)))
           | (r, out1) \<Rightarrow> (r, out1)))"

text \<open>
  The loop over the wakeups it is given: the state it is in afterwards (the last state
  when the loop was left early) and the callouts, each with the number of the iteration
  that made it.
\<close>

fun run_state :: "c_uint \<Rightarrow> gesture_state \<Rightarrow> wakeup list \<Rightarrow> gesture_state" where
  "run_state lim s [] = s"
| "run_state lim s (w # ws) =
     (case fst (iteration lim s w) of Continue s' \<Rightarrow> run_state lim s' ws | _ \<Rightarrow> s)"

fun run_trace :: "c_uint \<Rightarrow> nat \<Rightarrow> gesture_state \<Rightarrow> wakeup list \<Rightarrow> (nat \<times> callout) list" where
  "run_trace lim k s [] = []"
| "run_trace lim k s (w # ws) =
     map (Pair k) (snd (iteration lim s w)) @
     (case fst (iteration lim s w) of Continue s' \<Rightarrow> run_trace lim (Suc k) s' ws | _ \<Rightarrow> [])"

text \<open>The arguments with which a handler calls \<open>execute_action\<close>, lines 666 to 684.\<close>

fun callout_action :: "callout \<Rightarrow> (action_e \<times> c_uint \<times> c_uint) option" where
  "callout_action OnDown = Some (A_DOWN, 0, 0)"
| "callout_action OnUp = Some (A_UP, 0, 0)"
| "callout_action (OnHold n t) = Some (A_HOLD, n, ucast t)"
| "callout_action (OnTimesClicked n) = Some (A_CLICK, n, 0)"
| "callout_action (TimerSettime ns) = None"

text \<open>Wakeups with one event: an edge read at a time in milliseconds, the timer.\<close>

definition press :: "nat \<Rightarrow> wakeup" where
  "press t = PollReady (Some (of_nat t, ButtonLevel 1)) None"

definition release :: "nat \<Rightarrow> wakeup" where
  "release t = PollReady (Some (of_nat t, ButtonLevel 0)) None"

definition timer_fired :: wakeup where
  "timer_fired = PollReady None (Some TimerExpired)"

subsection \<open>The configuration reader\<close>

text \<open>
  A C string is the list of its characters before the terminator. An open file is the
  list of the bytes its reads deliver, with what follows them: the end of the file, or
  a read that fails, then and at every later attempt, and leaves the end-of-file
  indicator clear (a directory, which \<open>fopen\<close> opens for reading, or an I/O error).
  \<open>fopen\<close> gives \<open>None\<close> when the file cannot be opened. The reader opens the file again
  for every lookup.
\<close>

definition NUL :: char where
  "NUL = CHR 0x00"

definition NEWLINE :: char where
  "NEWLINE = CHR 0x0A"

definition c_str :: "string \<Rightarrow> string" where
  "c_str buf = takeWhile (\<lambda>c. c \<noteq> NUL) buf"

definition WHITESPACE_CHARS :: string where
  "WHITESPACE_CHARS = [CHR '' '', CHR 0x09]"

definition is_ws :: "char \<Rightarrow> bool" where
  "is_ws c = (c \<in> set WHITESPACE_CHARS)"

text \<open>
  \<open>p + strspn(p, WHITESPACE_CHARS)\<close> drops the leading whitespace; \<open>strpbrk\<close> gives the
  rest of the string from its first whitespace character on, or \<open>NULL\<close>.
\<close>

definition skip_ws :: "string \<Rightarrow> string" where
  "skip_ws p = dropWhile is_ws p"

definition strpbrk_ws :: "string \<Rightarrow> string option" where
  "strpbrk_ws p =
     (case dropWhile (\<lambda>c. \<not> is_ws c) p of [] \<Rightarrow> None | c # cs \<Rightarrow> Some (c # cs))"

datatype stream_end = EndOfFile | ReadError

text \<open>
  \<open>fgets(buffer, n, f)\<close> on the bytes: at most \<open>n - 1\<close> of them, up to and with the first
  newline; the bytes read and the rest.
\<close>

fun fgets :: "nat \<Rightarrow> string \<Rightarrow> string \<times> string" where
  "fgets n [] = ([], [])"
| "fgets n (c # cs) =
     (if n \<le> 1 then ([], c # cs)
      else if c = NEWLINE then ([c], cs)
      else (case fgets (n - 1) cs of (l, r) \<Rightarrow> (c # l, r)))"

text \<open>
  The loop of \<open>read_line\<close> that drops the tail of a line too long for the buffer, lines
  146 to 151: it ends behind the next newline, or at the end of the file, where \<open>fgetc\<close>
  sets the end-of-file indicator. Where the read fails instead, \<open>fgetc\<close> returns \<open>EOF\<close>
  with the indicator clear and the loop goes on with the stream as it is: it does not
  end, and the result is \<open>None\<close>.
\<close>

partial_function (option) skip_line :: "stream_end \<Rightarrow> string \<Rightarrow> string option" where
  "skip_line e f =
     (case f of
        [] \<Rightarrow> (case e of EndOfFile \<Rightarrow> Some [] | ReadError \<Rightarrow> skip_line e [])
      | c # cs \<Rightarrow> if c = NEWLINE then Some cs else skip_line e cs)"

text \<open>
  \<open>read_line\<close>, lines 136 to 155. \<open>fgets\<close> meets the end of the bytes when it has not
  filled the buffer and has read no newline. At the end of the file it then returns
  the bytes it has, or \<open>NULL\<close> when it has none; at a failing read it returns \<open>NULL\<close> (as
  ISO C has it for a read error, also behind bytes already read). With \<open>NULL\<close> from \<open>fgets\<close>
  the function returns false: \<open>NoLine\<close> when the end-of-file indicator is set,
  \<open>ReadFailed\<close> when it is clear. Otherwise it returns true with the line and leaves the
  rest of the stream; a line that did not fit the buffer loses its tail first.
\<close>

datatype line_read = NoLine | ReadFailed | Line string string

definition read_line :: "stream_end \<Rightarrow> string \<Rightarrow> nat \<Rightarrow> line_read option" where
  "read_line e f n =
     (case fgets n f of (buffer, rest) \<Rightarrow>
        if length buffer < n - 1 \<and> (buffer = [] \<or> last buffer \<noteq> NEWLINE) then
          (case e of
             EndOfFile \<Rightarrow> Some (if buffer = [] then NoLine else Line buffer rest)
           | ReadError \<Rightarrow> Some ReadFailed)
        else if n - 2 < length buffer \<and> buffer ! (n - 2) \<noteq> NUL \<and> buffer ! (n - 2) \<noteq> NEWLINE
        then (case skip_line e rest of None \<Rightarrow> None | Some rest' \<Rightarrow> Some (Line buffer rest'))
        else Some (Line buffer rest))"

definition BUFFER_SIZE :: nat where
  "BUFFER_SIZE = 2 * MAX_PATH_LENGTH + 1"

text \<open>
  What the body of the loop of \<open>read_config_value\<close> makes of one line, lines 177 to 255,
  before it compares the name: nothing (the line is skipped), the syntax warning, or
  the name, the value and the argument. \<open>has_args\<close> says that \<open>args\<close> is not \<open>NULL\<close>.
\<close>

datatype line_entry =
    LineSkipped
  | LineSyntaxError
  | LineEntry string string string

definition line_rest :: "string \<Rightarrow> string" where
  "line_rest buffer =
     skip_ws (takeWhile (\<lambda>c. c \<noteq> NEWLINE) (takeWhile (\<lambda>c. c \<noteq> CHR ''#'') (c_str buffer)))"

definition line_fields :: "bool \<Rightarrow> string \<Rightarrow> string \<times> string \<times> string" where
  "line_fields has_args p =
     (case strpbrk_ws p of
        Some t \<Rightarrow>
          (let name = take (length p - length t) p;
               t1 = skip_ws t
           in if has_args then
                (case strpbrk_ws t1 of
                   Some a1 \<Rightarrow> (name, take (length t1 - length a1) t1, skip_ws a1)
                 | None \<Rightarrow> (name, t1, []))
              else (name, t1, []))
      | None \<Rightarrow> (p, [], []))"

definition parse_line :: "bool \<Rightarrow> string \<Rightarrow> line_entry" where
  "parse_line has_args buffer =
     (let p = line_rest buffer in
      if length p > 1 then
        (case line_fields has_args p of (name, val, argument) \<Rightarrow>
           if length name \<noteq> 0 then LineEntry name val argument else LineSyntaxError)
      else LineSkipped)"

datatype config_warning = TooLongValue nat | UnexpectedSyntax nat

record config_result =
  found :: bool
  dst :: string
  args :: string
  warnings :: "config_warning list"

text \<open>
  The loop of \<open>read_config_value\<close>, lines 171 to 257, from the rest of the open stream,
  the number of lines read so far and the warnings written so far: the value and the
  argument of the first line that binds \<open>value_name\<close> within the capacity \<open>n\<close>, or nothing
  at the end of the file. The loop is left when \<open>feof\<close> holds, which is after \<open>NoLine\<close>
  (when \<open>fgets\<close> met the end of the file behind the bytes of the last line, \<open>feof\<close> holds
  at once; the model reads once more and gets \<open>NoLine\<close>, to the same effect). After
  \<open>ReadFailed\<close> the indicator is clear and nothing has changed, so the loop goes round
  with the failing stream and does not end: the result \<open>None\<close> is the lookup that does
  not return.
\<close>

partial_function (option) scan_lines ::
  "string \<Rightarrow> bool \<Rightarrow> nat \<Rightarrow> stream_end \<Rightarrow> string \<Rightarrow> nat \<Rightarrow> config_warning list \<Rightarrow>
   ((string \<times> string) option \<times> config_warning list) option" where
  "scan_lines value_name has_args n e f currentLine ws =
     (case read_line e f BUFFER_SIZE of
        None \<Rightarrow> None
      | Some NoLine \<Rightarrow> Some (None, ws)
      | Some ReadFailed \<Rightarrow> scan_lines value_name has_args n e [] currentLine ws
      | Some (Line line rest) \<Rightarrow>
          (case parse_line has_args line of
             LineSkipped \<Rightarrow> scan_lines value_name has_args n e rest (currentLine + 1) ws
           | LineSyntaxError \<Rightarrow>
               scan_lines value_name has_args n e rest (currentLine + 1)
                 (ws @ [UnexpectedSyntax (currentLine + 1)])
           | LineEntry name val argument \<Rightarrow>
               if name = value_name then
                 (if length val < n \<and> length argument < n then Some (Some (val, argument), ws)
                  else scan_lines value_name has_args n e rest (currentLine + 1)
                         (ws @ [TooLongValue (currentLine + 1)]))
               else scan_lines value_name has_args n e rest (currentLine + 1) ws))"

text \<open>
  \<open>read_config_value\<close>, lines 157 to 269. Without \<open>args\<close> the caller's argument buffer
  does not exist; the result then carries the empty string for it.
\<close>

definition read_config_value ::
  "(string \<times> stream_end) option \<Rightarrow> string \<Rightarrow> bool \<Rightarrow> nat \<Rightarrow> string \<Rightarrow> config_result option" where
  "read_config_value conf value_name has_args n default_value =
     (case conf of
        None \<Rightarrow> Some \<lparr>found = False, dst = default_value, args = [], warnings = []\<rparr>
      | Some (f, e) \<Rightarrow>
          (case scan_lines value_name has_args n e f 0 [] of
             None \<Rightarrow> None
           | Some (Some (val, argument), ws) \<Rightarrow>
               Some \<lparr>found = True, dst = val, args = (if has_args then argument else []),
                     warnings = ws\<rparr>
           | Some (None, ws) \<Rightarrow>
               Some \<lparr>found = False, dst = default_value, args = [], warnings = ws\<rparr>))"

lemma fgets_length: "length (snd (fgets n f)) \<le> length f"
proof (induction f arbitrary: n)
  case Nil
  show ?case by simp
next
  case (Cons c cs)
  have "length (snd (fgets (n - 1) cs)) \<le> length cs" by (rule Cons.IH)
  then show ?case by (simp add: case_prod_beta)
qed

lemma fgets_shorter: "1 < n \<Longrightarrow> f \<noteq> [] \<Longrightarrow> length (snd (fgets n f)) < length f"
  using fgets_length [of "n - 1" "tl f"] by (cases f) (simp_all add: case_prod_beta)

lemma fgets_Nil: "1 < n \<Longrightarrow> fst (fgets n f) = [] \<Longrightarrow> f = []"
  by (cases f) (auto simp: case_prod_beta split: if_splits)

lemma skip_line_length:
  assumes "skip_line e f = Some r"
  shows "length r \<le> length f"
proof (rule skip_line.raw_induct [where P = "\<lambda>e f r. length r \<le> length f", OF _ assms])
  fix skip e f r
  assume ih: "\<And>e f r. skip e f = Some r \<Longrightarrow> length r \<le> length f"
    and st: "(case f of
        [] \<Rightarrow> (case e of EndOfFile \<Rightarrow> Some [] | ReadError \<Rightarrow> skip e [])
      | c # cs \<Rightarrow> if c = NEWLINE then Some cs else skip e cs) = Some r"
  show "length r \<le> length f"
  proof (cases f)
    case Nil
    then show ?thesis using st ih [of e "[]" r] by (cases e) simp_all
  next
    case (Cons c cs)
    then show ?thesis using st ih [of e cs r] by (cases "c = NEWLINE") auto
  qed
qed

lemma skip_line_EndOfFile:
  "skip_line EndOfFile f = Some (drop 1 (dropWhile (\<lambda>c. c \<noteq> NEWLINE) f))"
  by (induction f) (subst skip_line.simps, simp)+

lemma skip_line_newline:
  "NEWLINE \<in> set f \<Longrightarrow> skip_line e f = Some (drop 1 (dropWhile (\<lambda>c. c \<noteq> NEWLINE) f))"
  by (induction f) (subst skip_line.simps, auto)+

lemma skip_line_ReadError_Some:
  assumes "skip_line e f = Some r"
  shows "e = ReadError \<longrightarrow> NEWLINE \<in> set f"
proof (rule skip_line.raw_induct [where P = "\<lambda>e f r. e = ReadError \<longrightarrow> NEWLINE \<in> set f",
      OF _ assms])
  fix skip e f r
  assume ih: "\<And>e f r. skip e f = Some r \<Longrightarrow> e = ReadError \<longrightarrow> NEWLINE \<in> set f"
    and st: "(case f of
        [] \<Rightarrow> (case e of EndOfFile \<Rightarrow> Some [] | ReadError \<Rightarrow> skip e [])
      | c # cs \<Rightarrow> if c = NEWLINE then Some cs else skip e cs) = Some r"
  show "e = ReadError \<longrightarrow> NEWLINE \<in> set f"
  proof (cases f)
    case Nil
    then show ?thesis using st ih [of e "[]" r] by (cases e) simp_all
  next
    case (Cons c cs)
    then show ?thesis using st ih [of e cs r] by (cases "c = NEWLINE") auto
  qed
qed

lemma skip_line_stuck: "NEWLINE \<notin> set f \<Longrightarrow> skip_line ReadError f = None"
  using skip_line_ReadError_Some [of ReadError f] by (cases "skip_line ReadError f") auto

lemma read_line_shorter:
  assumes "read_line e f BUFFER_SIZE = Some (Line line rest)"
  shows "length rest < length f"
proof -
  have n: "1 < BUFFER_SIZE" by (simp add: BUFFER_SIZE_def MAX_PATH_LENGTH_def)
  obtain buffer r where g: "fgets BUFFER_SIZE f = (buffer, r)" by (cases "fgets BUFFER_SIZE f")
  have b: "buffer \<noteq> []"
    using assms g n by (auto simp: read_line_def split: if_splits stream_end.splits option.splits)
  then have f: "f \<noteq> []" using g fgets_Nil [OF n, of f] by auto
  have s: "length r < length f" using fgets_shorter [OF n f] g by simp
  show ?thesis
    using assms g s
    by (auto simp: read_line_def split: if_splits stream_end.splits option.splits
        dest: skip_line_length)
qed

text \<open>
  The lines that \<open>read_line\<close> delivers from a stream, and what it means that a line binds
  a key for a lookup with capacity \<open>n\<close>: the line is not skipped, the name parsed from
  it is the key, and the value and the argument fit. A line with an overlong value is
  passed over with a warning, so it does not bind.
\<close>

function file_lines :: "stream_end \<Rightarrow> string \<Rightarrow> string list" where
  "file_lines e f =
     (case read_line e f BUFFER_SIZE of
        Some (Line line rest) \<Rightarrow> line # file_lines e rest
      | Some NoLine \<Rightarrow> []
      | Some ReadFailed \<Rightarrow> []
      | None \<Rightarrow> [])"
  by pat_completeness auto
termination
  by (relation "measure (\<lambda>(e, f). length f)") (auto dest: read_line_shorter)

definition binds :: "string \<Rightarrow> bool \<Rightarrow> nat \<Rightarrow> string \<Rightarrow> bool" where
  "binds value_name has_args n line =
     (case parse_line has_args line of
        LineEntry name val argument \<Rightarrow> name = value_name \<and> length val < n \<and> length argument < n
      | LineSkipped \<Rightarrow> False
      | LineSyntaxError \<Rightarrow> False)"

definition line_named :: "string \<Rightarrow> string \<Rightarrow> bool" where
  "line_named value_name line =
     (case parse_line True line of
        LineEntry name val argument \<Rightarrow> name = value_name
      | LineSkipped \<Rightarrow> False
      | LineSyntaxError \<Rightarrow> False)"

definition key_present :: "(string \<times> stream_end) option \<Rightarrow> string \<Rightarrow> bool \<Rightarrow> nat \<Rightarrow> bool" where
  "key_present conf value_name has_args n =
     (case conf of
        None \<Rightarrow> False
      | Some (f, e) \<Rightarrow> list_ex (binds value_name has_args n) (file_lines e f))"

subsection \<open>The action resolver\<close>

text \<open>
  \<open>get_action_script\<close>, lines 311 to 340: the script and the argument bound to the
  action, the value \<open>#\<close> standing for a key that was not found. Both lookups read the
  same file. \<open>None\<close>, here and below, is a call that does not return because a lookup
  does not.
\<close>

definition starts_with_hash :: "string \<Rightarrow> bool" where
  "starts_with_hash buffer = (case buffer of [] \<Rightarrow> False | c # cs \<Rightarrow> c = CHR ''#'')"

definition get_action_script ::
  "(string \<times> stream_end) option \<Rightarrow> action_e \<Rightarrow> string \<Rightarrow> nat \<Rightarrow> (string \<times> string) option" where
  "get_action_script conf action action_name buff_length =
     (case read_config_value conf action_name True buff_length ''#'' of
        None \<Rightarrow> None
      | Some r1 \<Rightarrow>
          (case (if starts_with_hash (dst r1) then
                   (case action of
                      A_CLICK \<Rightarrow> read_config_value conf CLICK_OTHER_VALUE_NAME True buff_length ''#''
                    | A_HOLD \<Rightarrow> read_config_value conf HOLD_OTHER_VALUE_NAME True buff_length ''#''
                    | A_DOWN \<Rightarrow> Some r1
                    | A_UP \<Rightarrow> Some r1
                    | A_COUNT \<Rightarrow> Some r1)
                 else Some r1) of
             None \<Rightarrow> None
           | Some r2 \<Rightarrow> Some (if starts_with_hash (dst r2) then [] else dst r2, args r2)))"

text \<open>
  \<open>get_action_script_path\<close>, lines 343 to 391. The result is the action name left in the
  caller's buffer and either \<open>-EINVAL\<close>, the return value 0 (nothing is bound), or the
  length returned with the script and the arguments. \<open>dirname\<close> is the C library's: the
  parameter gives what it leaves in the buffer it is called on.
\<close>

datatype path_result =
    PathEINVAL
  | PathZero
  | PathScript nat string string

definition get_action_script_path ::
  "bool \<Rightarrow> bool \<Rightarrow> string \<Rightarrow> (string \<Rightarrow> string) \<Rightarrow> (string \<times> stream_end) option \<Rightarrow>
   action_e \<Rightarrow> c_uint \<Rightarrow> c_uint \<Rightarrow> nat \<Rightarrow> (string \<times> path_result) option" where
  "get_action_script_path g_full_time g_offset_time g_config_path dirname conf
     action click_count hold_time n =
     (if action = A_COUNT then Some ([], PathEINVAL)
      else
        (let action_name = get_action_name g_full_time g_offset_time action click_count hold_time in
         if action_name = [] then Some (action_name, PathEINVAL)
         else
           (case get_action_script conf action action_name MAX_PATH_LENGTH of
              None \<Rightarrow> None
            | Some (action_script, arguments) \<Rightarrow>
                if action_script = [] then Some (action_name, PathZero)
                else
                  (let script =
                     (if hd action_script = CHR ''/'' then take (n - 2) action_script
                      else
                        (let tmp0 = dirname (take MAX_PATH_LENGTH g_config_path);
                             tmp1 = tmp0 @ take (MAX_PATH_LENGTH - length tmp0) ''/'';
                             tmp2 = tmp1 @ take (MAX_PATH_LENGTH - length tmp1) action_script
                         in take (n - 1) tmp2))
                   in Some (action_name,
                            PathScript (length script) script (take (n - 1) arguments))))))"

text \<open>
  \<open>execute_action\<close>, lines 393 to 436: what becomes of the call. \<open>ExecSystem cmd\<close> is the
  call \<open>system(cmd)\<close>. The bound \<open>remainingSpace\<close> is one more than what is left of \<open>cmd\<close>,
  so \<open>snprintf\<close> can be let to write its terminator one byte behind the array:
  \<open>ExecOverrun\<close>.
\<close>

datatype exec_result =
    ExecError
  | ExecNoCommand
  | ExecArgsFailed
  | ExecOverrun
  | ExecSystem string

definition execute_action ::
  "bool \<Rightarrow> bool \<Rightarrow> string \<Rightarrow> (string \<Rightarrow> string) \<Rightarrow> (string \<times> stream_end) option \<Rightarrow>
   action_e \<Rightarrow> c_uint \<Rightarrow> c_uint \<Rightarrow> exec_result option" where
  "execute_action g_full_time g_offset_time g_config_path dirname conf action click_count hold_time =
     (let sizeof_cmd = MAX_PATH_LENGTH + 64 in
      case get_action_script_path g_full_time g_offset_time g_config_path dirname conf
             action click_count hold_time sizeof_cmd of
        None \<Rightarrow> None
      | Some (action_name, PathEINVAL) \<Rightarrow> Some ExecError
      | Some (action_name, PathZero) \<Rightarrow> Some ExecNoCommand
      | Some (action_name, PathScript n cmd arg) \<Rightarrow>
          if n = 0 then Some ExecNoCommand
          else
            (let remainingSpace = sizeof_cmd - n + 1;
                 written =
                   (case action of
                      A_CLICK \<Rightarrow>
                        (if length arg = 0 then '' '' @ fmt_u (unat click_count) else '' '' @ arg)
                    | A_HOLD \<Rightarrow>
                        (if length arg = 0
                         then '' '' @ fmt_u (unat click_count) @ '' '' @ fmt_u (unat hold_time)
                         else '' '' @ arg)
                    | A_DOWN \<Rightarrow> []
                    | A_UP \<Rightarrow> []
                    | A_COUNT \<Rightarrow> []);
                 result = length written
             in if result \<ge> remainingSpace then Some ExecArgsFailed
                else if n + result \<ge> sizeof_cmd then Some ExecOverrun
                else Some (ExecSystem (cmd @ written))))"

subsection \<open>Start-up: the options and the configuration path\<close>

text \<open>
  The globals that \<open>main\<close> sets, with its two locals \<open>conf_path_specified\<close> and
  \<open>click_count_limit_specified\<close>; the fields carry the names of the globals without the
  prefix \<open>g_\<close>.
\<close>

datatype PinActivation = PA_UNSPECIFIED | PA_ACTIVE_LOW | PA_ACTIVE_HIGH

record settings =
  full_time :: bool
  offset_time :: bool
  debug_level :: c_uint
  config_path :: string
  click_count_limit :: c_uint
  button_pin :: c_int
  pin_activation :: PinActivation
  conf_path_specified :: bool
  click_count_limit_specified :: bool

definition DEFAULT_CLICK_COUNT_LIMIT :: c_uint where
  "DEFAULT_CLICK_COUNT_LIMIT = 8"

definition initial_settings :: settings where
  "initial_settings =
     \<lparr>full_time = False, offset_time = False, debug_level = 1,
      config_path = ''/etc/inzown/button.conf'',
      click_count_limit = DEFAULT_CLICK_COUNT_LIMIT, button_pin = 17,
      pin_activation = PA_UNSPECIFIED,
      conf_path_specified = False, click_count_limit_specified = False\<rparr>"

text \<open>
  \<open>strncmp\<close> on two C strings: the difference of the first pair of bytes that differ
  among the first \<open>n\<close>, the terminator counting as a byte.
\<close>

fun strncmp :: "string \<Rightarrow> string \<Rightarrow> nat \<Rightarrow> int" where
  "strncmp [] [] n = 0"
| "strncmp [] (b # bs) n = (if n = 0 then 0 else - int (of_char b))"
| "strncmp (a # as) [] n = (if n = 0 then 0 else int (of_char a))"
| "strncmp (a # as) (b # bs) n =
     (if n = 0 then 0
      else if a = b then strncmp as bs (n - 1)
      else int (of_char a) - int (of_char b))"

text \<open>
  \<open>parse_uint\<close>, lines 920 to 931. \<open>strtoul\<close> is the C library's, for base 10: the
  parameter gives the value and the number of characters it consumed.
\<close>

definition parse_uint :: "(string \<Rightarrow> nat \<times> nat) \<Rightarrow> string \<Rightarrow> c_uint \<times> bool" where
  "parse_uint strtoul src =
     (case strtoul src of (x, consumed) \<Rightarrow>
        if consumed = 0 \<or> consumed < length src then (0, False) else (of_nat x, True))"

text \<open>\<open>read_config_uint\<close>, lines 933 to 952, with its buffer of 12 bytes.\<close>

definition read_config_uint ::
  "(string \<Rightarrow> nat \<times> nat) \<Rightarrow> (string \<times> stream_end) option \<Rightarrow> string \<Rightarrow> c_uint \<Rightarrow>
   (c_uint \<times> bool) option" where
  "read_config_uint strtoul conf value_name default_value =
     (case read_config_value conf value_name False 12 ''#'' of
        None \<Rightarrow> None
      | Some r \<Rightarrow>
          (let buffer = dst r in
           if starts_with_hash buffer then Some (default_value, False)
           else (case parse_uint strtoul buffer of
                   (x, True) \<Rightarrow> Some (x, True)
                 | (x, False) \<Rightarrow> Some (default_value, False))))"

text \<open>
  The loop over \<open>argv\<close>, lines 979 to 1105, from \<open>argv[1]\<close> on: the exit status when
  \<open>main\<close> returns from the loop, the settings otherwise.
\<close>

fun parse_args :: "(string \<Rightarrow> nat \<times> nat) \<Rightarrow> string list \<Rightarrow> settings \<Rightarrow> int + settings" where
  "parse_args strtoul [] st = Inr st"
| "parse_args strtoul (a # rest) st =
     (if a = ''--help'' then Inl 0
      else if a = ''--version'' then Inl 0
      else if a = ''--full-time'' then parse_args strtoul rest (st\<lparr>full_time := True\<rparr>)
      else if a = ''--offset-time'' then parse_args strtoul rest (st\<lparr>offset_time := True\<rparr>)
      else if a = ''--help-time'' then Inl 0
      else if a = ''--debug'' then
        (case rest of
           [] \<Rightarrow> Inl 1
         | v # rest' \<Rightarrow>
             (case parse_uint strtoul v of
                (x, True) \<Rightarrow> parse_args strtoul rest' (st\<lparr>debug_level := x\<rparr>)
              | (x, False) \<Rightarrow> parse_args strtoul rest st))
      else if a = ''-q'' then parse_args strtoul rest (st\<lparr>debug_level := 0\<rparr>)
      else if a = ''--conf'' then
        (case rest of
           [] \<Rightarrow> Inl 1
         | v # rest' \<Rightarrow>
             parse_args strtoul rest'
               (st\<lparr>config_path := take MAX_PATH_LENGTH v, conf_path_specified := True\<rparr>))
      else if a = ''--click-count-limit'' \<or> a = ''-n'' then
        (case rest of
           [] \<Rightarrow> Inl 1
         | v # rest' \<Rightarrow>
             (case parse_uint strtoul v of
                (x, True) \<Rightarrow>
                  parse_args strtoul rest'
                    (st\<lparr>click_count_limit := x, click_count_limit_specified := True\<rparr>)
              | (x, False) \<Rightarrow> Inl 1))
      else if a = ''--gpio'' then
        (case rest of
           [] \<Rightarrow> Inl 1
         | v # rest' \<Rightarrow>
             (case parse_uint strtoul v of
                (x, True) \<Rightarrow> parse_args strtoul rest' (st\<lparr>button_pin := x\<rparr>)
              | (x, False) \<Rightarrow> Inl 1))
      else if a = ''--active-low'' then
        parse_args strtoul rest (st\<lparr>pin_activation := PA_ACTIVE_LOW\<rparr>)
      else if a = ''--active-high'' then
        parse_args strtoul rest (st\<lparr>pin_activation := PA_ACTIVE_HIGH\<rparr>)
      else Inl 1)"

text \<open>
  The loop over \<open>envp\<close>, lines 1109 to 1117, from entry \<open>i\<close> on. The path is read at
  \<open>&envp[i][16]\<close>: inside the entry when it has 16 characters or more, behind its
  terminator otherwise, where the process finds whatever \<open>beyond i\<close> is.
\<close>

fun scan_env :: "(nat \<Rightarrow> string) \<Rightarrow> nat \<Rightarrow> string list \<Rightarrow> string \<Rightarrow> string" where
  "scan_env beyond i [] path = path"
| "scan_env beyond i (e # envp) path =
     scan_env beyond (Suc i) envp
       (if strncmp ''INZOWN_BTN_CFG='' e 16 = 0
        then take MAX_PATH_LENGTH (if 16 \<le> length e then drop 16 e else beyond i)
        else path)"

text \<open>
  \<open>main\<close> in two parts. \<open>main_options\<close> is the code up to line 1118, which reads the
  options and the environment and reads no file: behind it the configuration path is
  final. \<open>main_setup\<close> goes on to the call of \<open>run\<close>, lines 1120 to 1123, with the lookup
  of the click-count limit in the file at that path; \<open>fopen\<close> gives the stream of the file
  at a path.
\<close>

definition main_options ::
  "(string \<Rightarrow> nat \<times> nat) \<Rightarrow> (nat \<Rightarrow> string) \<Rightarrow> string list \<Rightarrow> string list \<Rightarrow> int + settings" where
  "main_options strtoul beyond argv envp =
     (case parse_args strtoul (drop 1 argv) initial_settings of
        Inl status \<Rightarrow> Inl status
      | Inr st \<Rightarrow>
          (if \<not> conf_path_specified st
           then Inr (st\<lparr>config_path := scan_env beyond 0 envp (config_path st)\<rparr>)
           else Inr st))"

definition main_setup ::
  "(string \<Rightarrow> nat \<times> nat) \<Rightarrow> (nat \<Rightarrow> string) \<Rightarrow> (string \<Rightarrow> (string \<times> stream_end) option) \<Rightarrow>
   string list \<Rightarrow> string list \<Rightarrow> (int + settings) option" where
  "main_setup strtoul beyond fopen argv envp =
     (case main_options strtoul beyond argv envp of
        Inl status \<Rightarrow> Some (Inl status)
      | Inr st1 \<Rightarrow>
          (if \<not> click_count_limit_specified st1 then
             (case read_config_uint strtoul (fopen (config_path st1))
                     CLICK_COUNT_LIMIT_VALUE_NAME (click_count_limit st1) of
                None \<Rightarrow> None
              | Some (x, ok) \<Rightarrow> Some (Inr (st1\<lparr>click_count_limit := x\<rparr>)))
           else Some (Inr st1)))"

section \<open>Properties\<close>

declare fmt_u.simps [simp del] file_lines.simps [simp del]

lemmas fsm_defs = iteration_def button_changed_def timer_timed_out_def start_state_def
  CLICK_TIMEOUT_MS_def HOLD_PRESS_TIMEOUT_MS_def press_def release_def timer_fired_def

lemmas cfg_defs = read_config_value_def scan_lines.simps skip_line.simps read_line_def
  BUFFER_SIZE_def MAX_PATH_LENGTH_def parse_line_def line_rest_def line_fields_def skip_ws_def
  strpbrk_ws_def is_ws_def WHITESPACE_CHARS_def c_str_def NUL_def NEWLINE_def

lemmas res_defs = execute_action_def get_action_script_path_def get_action_script_def
  get_action_name_def starts_with_hash_def ABSOLUTE_MAX_CLICK_def ABSOLUTE_MAX_HOLD_def
  CLICK_OTHER_VALUE_NAME_def HOLD_OTHER_VALUE_NAME_def fmt_u.simps digit_def Let_def

subsection \<open>The seconds quantizer\<close>

lemma sint_c_int_of_int:
  "- 2147483648 \<le> k \<Longrightarrow> k < 2147483648 \<Longrightarrow> sint (word_of_int k :: c_int) = k"
  by (simp add: sint_sbintrunc' signed_take_bit_int_eq_self)

lemma sint_c_int_range: "- 2147483648 \<le> sint (w :: c_int) \<and> sint w < 2147483648"
  using sint_ge [of w] sint_lt [of w] by simp

lemma sdiv_nonneg: "0 \<le> k \<Longrightarrow> 0 < l \<Longrightarrow> k sdiv l = k div (l::int)"
  by (simp add: signed_divide_int_def sgn_if)

lemma sdiv_neg: "k < 0 \<Longrightarrow> 0 < l \<Longrightarrow> k sdiv l = - ((- k) div (l::int))"
  by (simp add: signed_divide_int_def sgn_if)

lemma int_div_le_self: "0 \<le> k \<Longrightarrow> 0 < l \<Longrightarrow> k div l \<le> (k::int)"
  using zdiv_mono2 [of k 1 l] by simp

lemma sdiv_bound:
  assumes "- 2147483648 \<le> k" "k < 2147483648" "0 < (l::int)"
  shows "- 2147483648 \<le> k sdiv l \<and> k sdiv l < 2147483648"
proof (cases "0 \<le> k")
  case True
  then have "k div l \<le> k" "0 \<le> k div l" using assms(3)
    by (simp_all add: int_div_le_self pos_imp_zdiv_nonneg_iff)
  then show ?thesis using True assms by (simp add: sdiv_nonneg)
next
  case False
  then have "(- k) div l \<le> - k" "0 \<le> (- k) div l" using assms(3)
    by (simp_all add: int_div_le_self pos_imp_zdiv_nonneg_iff)
  then show ?thesis using False assms by (simp add: sdiv_neg)
qed

lemma sint_c_div:
  "0 < sint b \<Longrightarrow> sint (c_div a b) = sint a sdiv sint b"
  unfolding c_div_def using sdiv_bound [of "sint a" "sint b"] sint_c_int_range [of a]
  by (simp add: sint_c_int_of_int)

lemma sint_c_mod_2: "sint (c_mod a 2) = sint a smod 2"
proof -
  have "0 \<le> \<bar>sint a\<bar> mod 2 \<and> \<bar>sint a\<bar> mod 2 < 2"
    by simp
  then have "- 2 < sint a smod 2 \<and> sint a smod 2 < 2"
    unfolding signed_modulo_int_def by (cases "sint a" "0::int" rule: linorder_cases) simp_all
  then show ?thesis unfolding c_mod_def by (simp add: sint_c_int_of_int)
qed

text \<open>
  What the four formulas compute on the integers when no operation leaves the range
  of \<open>int\<close>: for a hold time of at least 400 every dividend but \<open>ticks - 1000\<close> is
  positive, where truncation and the floor agree.
\<close>

definition seconds_int :: "bool \<Rightarrow> bool \<Rightarrow> int \<Rightarrow> int" where
  "seconds_int g_full_time g_offset_time ticks =
     (if g_offset_time then
        (if g_full_time then (ticks + 500) div 1000
         else ticks div 1000 + (ticks div 1000 + 1) mod 2)
      else
        (if g_full_time then ticks div 1000
         else 1 + (if ticks < 1000 then 0 else (ticks - 1000) div 2000) * 2))"

lemma sint_seconds:
  assumes "400 \<le> sint ticks" "g_full_time \<and> g_offset_time \<Longrightarrow> sint ticks \<le> 2147483147"
  shows "sint (seconds g_full_time g_offset_time ticks)
         = seconds_int g_full_time g_offset_time (sint ticks)"
proof -
  have r: "sint ticks < 2147483648" using sint_c_int_range [of ticks] by simp
  show ?thesis
  proof (cases g_offset_time)
    case True
    show ?thesis
    proof (cases g_full_time)
      case True
      have "sint (ticks + 500) = sint ticks + 500"
        using assms \<open>g_offset_time\<close> True by (simp add: sint_word_add signed_take_bit_int_eq_self)
      then show ?thesis using True \<open>g_offset_time\<close> assms(1)
        by (simp add: seconds_def seconds_int_def sint_c_div sdiv_nonneg)
    next
      case False
      have q: "sint (c_div ticks 1000) = sint ticks div 1000"
        using assms(1) by (simp add: sint_c_div sdiv_nonneg)
      have b: "0 \<le> sint ticks div 1000 \<and> sint ticks div 1000 < 2147484"
        using assms(1) r zdiv_mono1 [of "sint ticks" 2147483647 1000]
        by (simp add: pos_imp_zdiv_nonneg_iff)
      have s1: "sint (c_div ticks 1000 + 1) = sint ticks div 1000 + 1"
        using b by (simp add: sint_word_add q signed_take_bit_int_eq_self)
      have m: "sint (c_mod (c_div ticks 1000 + 1) 2) = (sint ticks div 1000 + 1) mod 2"
        using b by (simp add: sint_c_mod_2 s1 signed_modulo_int_def sgn_if)
      have mb: "0 \<le> (sint ticks div 1000 + 1) mod 2 \<and> (sint ticks div 1000 + 1) mod 2 < 2"
        by simp
      have "- 2147483648 \<le> sint ticks div 1000 + (sint ticks div 1000 + 1) mod 2
            \<and> sint ticks div 1000 + (sint ticks div 1000 + 1) mod 2 < 2147483648"
        using b mb by linarith
      then have "signed_take_bit 31 (sint ticks div 1000 + (sint ticks div 1000 + 1) mod 2)
            = sint ticks div 1000 + (sint ticks div 1000 + 1) mod 2"
        by (simp add: signed_take_bit_int_eq_self)
      then have "sint (c_div ticks 1000 + c_mod (c_div ticks 1000 + 1) 2)
            = sint ticks div 1000 + (sint ticks div 1000 + 1) mod 2"
        by (simp add: sint_word_add [of "c_div ticks 1000"] q m)
      then show ?thesis using False \<open>g_offset_time\<close>
        by (simp add: seconds_def seconds_int_def Let_def)
    qed
  next
    case False
    show ?thesis
    proof (cases g_full_time)
      case True
      then show ?thesis using False assms(1)
        by (simp add: seconds_def seconds_int_def sint_c_div sdiv_nonneg)
    next
      case f: False
      define q where "q = (if sint ticks < 1000 then 0 else (sint ticks - 1000) div 2000)"
      have d: "sint (ticks - 1000) = sint ticks - 1000"
        using assms(1) r by (simp add: sint_word_diff signed_take_bit_int_eq_self)
      have "(sint ticks - 1000) sdiv 2000 = q"
        using assms(1) unfolding q_def
        by (cases "sint ticks < 1000") (simp_all add: sdiv_nonneg sdiv_neg)
      then have c: "sint (c_div (ticks - 1000) 2000) = q"
        by (simp add: sint_c_div d)
      have b: "0 \<le> q \<and> q < 1073742"
        using r zdiv_mono1 [of "sint ticks - 1000" 2147482647 2000] unfolding q_def
        by (simp add: pos_imp_zdiv_nonneg_iff)
      have m: "sint (c_div (ticks - 1000) 2000 * 2) = q * 2"
        using b by (simp add: sint_word_mult c signed_take_bit_int_eq_self)
      have "sint (1 + c_div (ticks - 1000) 2000 * 2) = 1 + q * 2"
        using b by (simp add: sint_word_add m signed_take_bit_int_eq_self)
      then show ?thesis using False f by (simp add: seconds_def seconds_int_def q_def)
    qed
  qed
qed

lemma odd_step_mono: "(x::int) \<le> y \<Longrightarrow> x + (x + 1) mod 2 \<le> y + (y + 1) mod 2"
  by presburger

lemma seconds_int_mono:
  assumes "400 \<le> a" "a \<le> b"
  shows "seconds_int g_full_time g_offset_time a \<le> seconds_int g_full_time g_offset_time b"
proof -
  have d: "a div 1000 \<le> b div 1000" using assms(2) by (simp add: zdiv_mono1)
  have e: "(a + 500) div 1000 \<le> (b + 500) div 1000" using assms(2) by (simp add: zdiv_mono1)
  have g: "(a - 1000) div 2000 \<le> (b - 1000) div 2000" using assms(2) by (simp add: zdiv_mono1)
  have h: "\<not> b < 1000 \<Longrightarrow> 0 \<le> (b - 1000) div 2000" by (simp add: pos_imp_zdiv_nonneg_iff)
  show ?thesis
  proof (cases g_offset_time)
    case True
    then show ?thesis using e odd_step_mono [OF d] by (simp add: seconds_int_def)
  next
    case False
    then show ?thesis using d g h assms by (simp add: seconds_int_def)
  qed
qed

text \<open>
  Claim C5, as the code has it. The quantizer is monotonic in the hold time from 400 ms
  on: for \<open>400 \<le> ticks1 \<le> ticks2\<close> (as \<open>int\<close>s) and each of the four settings of the
  flags, \<open>seconds(ticks1) \<le> seconds(ticks2)\<close>, provided that with both flags set
  \<open>ticks2\<close> is at most 2147483147, so that \<open>ticks + 500\<close> stays an \<open>int\<close>. The other three
  formulas need no bound.
\<close>

theorem seconds_monotone:
  assumes "400 \<le>s ticks1" "ticks1 \<le>s ticks2"
    and "g_full_time \<and> g_offset_time \<longrightarrow> ticks2 \<le>s 2147483147"
  shows "seconds g_full_time g_offset_time ticks1 \<le>s seconds g_full_time g_offset_time ticks2"
proof -
  have t: "400 \<le> sint ticks1" "sint ticks1 \<le> sint ticks2"
    using assms(1,2) by (simp_all add: word_sle_eq)
  have u: "g_full_time \<and> g_offset_time \<Longrightarrow> sint ticks2 \<le> 2147483147"
    using assms(3) by (simp add: word_sle_eq)
  have "sint (seconds g_full_time g_offset_time ticks1)
        = seconds_int g_full_time g_offset_time (sint ticks1)"
    using t u by (intro sint_seconds) simp_all
  moreover have "sint (seconds g_full_time g_offset_time ticks2)
        = seconds_int g_full_time g_offset_time (sint ticks2)"
    using t u by (intro sint_seconds) simp_all
  ultimately show ?thesis
    using seconds_int_mono [OF t, of g_full_time g_offset_time] by (simp add: word_sle_eq)
qed

theorem seconds_monotone_witness:
  "400 \<le>s (400 :: c_int) \<and> (400 :: c_int) \<le>s 1600 \<and> (1600 :: c_int) \<le>s 2147483147
   \<and> seconds True True 400 = 0 \<and> seconds True True 1600 = 2
   \<and> seconds True True 400 \<le>s seconds True True 1600"
  using seconds_monotone [of 400 1600 True True]
  by (simp add: seconds_def c_div_def signed_divide_int_def)

text \<open>
  The claim as it is written, for every \<open>ticks1 \<le> ticks2\<close> from 400 on, fails with both
  flags set where \<open>ticks + 500\<close> passes the largest \<open>int\<close>: a hold of 2147483147 ms is
  reported as 2147483 seconds, one of 2147483148 ms as -2147483 seconds.
\<close>

theorem seconds_overflow_counterexample:
  "400 \<le>s (2147483147 :: c_int) \<and> (2147483147 :: c_int) \<le>s 2147483148
   \<and> sint (seconds True True 2147483147) = 2147483
   \<and> sint (seconds True True 2147483148) = - 2147483
   \<and> \<not> seconds True True 2147483147 \<le>s seconds True True 2147483148"
  by (simp add: seconds_def c_div_def signed_divide_int_def word_sle_eq)

text \<open>
  Claim C6. With both flags false and a hold time of at least 400 ms the result is
  \<open>1 + ((ticks - 1000) / 2000) * 2\<close> with the division of C, which truncates towards
  zero (no operation overflows), and it is odd.
\<close>

theorem seconds_default_odd:
  assumes "400 \<le>s ticks"
  shows "sint (seconds False False ticks) = 1 + ((sint ticks - 1000) sdiv 2000) * 2
         \<and> odd (sint (seconds False False ticks))"
proof -
  have t: "400 \<le> sint ticks" using assms by (simp add: word_sle_eq)
  have "(sint ticks - 1000) sdiv 2000
        = (if sint ticks < 1000 then 0 else (sint ticks - 1000) div 2000)"
    using t by (cases "sint ticks < 1000") (simp_all add: sdiv_nonneg sdiv_neg)
  then have "sint (seconds False False ticks) = 1 + ((sint ticks - 1000) sdiv 2000) * 2"
    using sint_seconds [of ticks False False] t by (simp add: seconds_int_def)
  then show ?thesis by simp
qed

theorem seconds_default_odd_witness:
  "400 \<le>s (400 :: c_int) \<and> sint (seconds False False 400) = 1
   \<and> odd (sint (seconds False False 400))"
  using seconds_default_odd [of 400] by (simp add: signed_divide_int_def)

subsection \<open>The action-name formatter\<close>

lemma length_fmt_u: "n \<le> 99 \<Longrightarrow> length (fmt_u n) \<le> 2"
  by (subst fmt_u.simps, subst fmt_u.simps)
     (simp add: div_le_mono less_Suc_eq_le div_less_iff_less_mult)

text \<open>
  Claim C7. For every action, click count and hold time, and every setting of the
  flags, the name that \<open>get_action_name\<close> leaves in the buffer has at most 11
  characters, so it fits the buffer of \<open>ACTION_NAME_SIZE + 1\<close> bytes with its terminator.
\<close>

theorem action_name_fits:
  "length (get_action_name g_full_time g_offset_time action click_count hold_time)
   \<le> ACTION_NAME_SIZE"
proof (cases action)
  case A_CLICK
  have "click_count \<le> 99 \<Longrightarrow> length (fmt_u (unat click_count)) \<le> 2"
    by (rule length_fmt_u) (simp add: word_le_nat_alt)
  then show ?thesis using A_CLICK
    by (auto simp: get_action_name_def ACTION_NAME_SIZE_def ABSOLUTE_MAX_CLICK_def
        CLICK_OTHER_VALUE_NAME_def)
next
  case A_HOLD
  have "seconds g_full_time g_offset_time hold_time \<le> 99
        \<Longrightarrow> length (fmt_u (unat (seconds g_full_time g_offset_time hold_time))) \<le> 2"
    by (rule length_fmt_u) (simp add: word_le_nat_alt)
  then show ?thesis using A_HOLD
    by (auto simp: get_action_name_def ACTION_NAME_SIZE_def ABSOLUTE_MAX_HOLD_def
        HOLD_OTHER_VALUE_NAME_def Let_def)
qed (simp_all add: get_action_name_def ACTION_NAME_SIZE_def DOWN_VALUE_NAME_def UP_VALUE_NAME_def)

lemma action_name_examples:
  "get_action_name False False A_CLICK 99 0 = ''CLICK_99''"
  "get_action_name False False A_CLICK 100 0 = ''CLICK_OTHER''"
  "get_action_name False False A_HOLD 3 3200 = ''HOLD_3S''"
  "get_action_name True False A_HOLD 1 100000 = ''HOLD_OTHER''"
  by (simp_all add: get_action_name_def ABSOLUTE_MAX_CLICK_def ABSOLUTE_MAX_HOLD_def
      CLICK_OTHER_VALUE_NAME_def HOLD_OTHER_VALUE_NAME_def fmt_u.simps digit_def
      seconds_def c_div_def signed_divide_int_def)

subsection \<open>The gesture loop\<close>

text \<open>
  Two invariants of the loop for the press count. With a limit, the count never passes
  it and is not 0 while the timer runs. Without one the count is at most the number of
  iterations so far, and is not 0 while the timer runs as long as that number stays below
  \<open>2 ^ 32\<close>, where the \<open>unsigned\<close> counter wraps.
\<close>

definition count_ok :: "c_uint \<Rightarrow> gesture_state \<Rightarrow> bool" where
  "count_ok lim s = (num_pressed s \<le> lim \<and> (if timer_running s then num_pressed s \<noteq> 0 else True))"

lemma word_inc_le: "(a::c_uint) < b \<Longrightarrow> a + 1 \<le> b"
  by (simp add: inc_le)

lemma word_inc_nonzero: "(a::c_uint) < b \<Longrightarrow> a + 1 \<noteq> 0"
  using max_word_wrap [of a] word_order.extremum [of b] by auto

lemma word_one_le: "(b::c_uint) \<noteq> 0 \<Longrightarrow> 1 \<le> b"
  by (simp add: word_le_nat_alt unat_gt_0 Suc_leI)

lemma button_changed_count_ok:
  assumes "lim \<noteq> 0" "count_ok lim s" "fst (button_changed lim s ts inp) = Continue s'"
  shows "count_ok lim s'"
  using assms
  by (auto simp: button_changed_def count_ok_def word_inc_le word_inc_nonzero word_one_le
      split: button_input.splits if_splits)

lemma timer_timed_out_count_ok:
  assumes "count_ok lim s" "fst (timer_timed_out s inp) = Continue s'"
  shows "count_ok lim s'"
  using assms by (auto simp: timer_timed_out_def count_ok_def split: timer_input.splits)

lemma iteration_Ready:
  "iteration lim s (PollReady b t) =
     (let r1 = (case b of None \<Rightarrow> (Continue s, [])
                | Some (ts, inp) \<Rightarrow> button_changed lim s ts inp) in
      case fst r1 of
        Continue s1 \<Rightarrow>
          (case t of None \<Rightarrow> (Continue s1, snd r1)
           | Some inp \<Rightarrow> (fst (timer_timed_out s1 inp), snd r1 @ snd (timer_timed_out s1 inp)))
      | Break \<Rightarrow> (Break, snd r1)
      | ReturnErrno \<Rightarrow> (ReturnErrno, snd r1))"
  unfolding iteration_def Let_def wakeup.case
  by (cases "case b of None \<Rightarrow> (Continue s, [])
                | Some (ts, inp) \<Rightarrow> button_changed lim s ts inp"; 
      cases "fst (case b of None \<Rightarrow> (Continue s, [])
                | Some (ts, inp) \<Rightarrow> button_changed lim s ts inp)";
      cases t; simp add: case_prod_beta)

lemma iteration_cases:
  assumes "fst (iteration lim s w) = Continue s'"
  obtains "s' = s"
  | ts inp where "fst (button_changed lim s ts inp) = Continue s'"
  | inp where "fst (timer_timed_out s inp) = Continue s'"
  | ts inp s1 inp' where "fst (button_changed lim s ts inp) = Continue s1"
      "fst (timer_timed_out s1 inp') = Continue s'"
proof (cases w)
  case PollFailed
  then show ?thesis using assms by (simp add: iteration_def)
next
  case PollNothing
  then show ?thesis using assms that(1) by (simp add: iteration_def)
next
  case (PollReady b t)
  show ?thesis
  proof (cases b)
    case None
    show ?thesis
    proof (cases t)
      case None
      then show ?thesis using assms that(1) PollReady \<open>b = None\<close> by (simp add: iteration_Ready)
    next
      case (Some inp)
      then show ?thesis using assms that(3) PollReady \<open>b = None\<close> by (simp add: iteration_Ready)
    qed
  next
    case (Some bi)
    obtain ts inp where bi: "bi = (ts, inp)" by (cases bi)
    show ?thesis
    proof (cases "fst (button_changed lim s ts inp)")
      case (Continue s1)
      show ?thesis
      proof (cases t)
        case None
        then show ?thesis using assms that(2) PollReady Some bi Continue by (simp add: iteration_Ready)
      next
        case (Some inp')
        then show ?thesis using assms that(4) [of ts inp s1 inp'] PollReady \<open>b = Some bi\<close> bi Continue
          by (simp add: iteration_Ready)
      qed
    next
      case Break
      then show ?thesis using assms PollReady Some bi by (simp add: iteration_Ready)
    next
      case ReturnErrno
      then show ?thesis using assms PollReady Some bi by (simp add: iteration_Ready)
    qed
  qed
qed

lemma iteration_count_ok:
  assumes "lim \<noteq> 0" "count_ok lim s" "fst (iteration lim s w) = Continue s'"
  shows "count_ok lim s'"
  using assms(3)
proof (cases rule: iteration_cases)
  case 1
  then show ?thesis using assms(2) by simp
next
  case (2 ts inp)
  then show ?thesis using assms(1,2) by (rule button_changed_count_ok [rotated 2])
next
  case (3 inp)
  then show ?thesis using assms(2) by (rule timer_timed_out_count_ok [rotated])
next
  case (4 ts inp s1 inp')
  have "count_ok lim s1" using assms(1,2) 4(1) by (rule button_changed_count_ok)
  then show ?thesis using 4(2) by (rule timer_timed_out_count_ok)
qed

lemma run_state_count_ok:
  "lim \<noteq> 0 \<Longrightarrow> count_ok lim s \<Longrightarrow> count_ok lim (run_state lim s ws)"
proof (induction ws arbitrary: s)
  case Nil
  then show ?case by simp
next
  case (Cons w ws)
  show ?case
  proof (cases "fst (iteration lim s w)")
    case (Continue s')
    then have "count_ok lim s'" using Cons.prems iteration_count_ok by blast
    then show ?thesis using Continue Cons.IH Cons.prems(1) by simp
  qed (simp_all add: Cons.prems)
qed

definition count_le :: "nat \<Rightarrow> gesture_state \<Rightarrow> bool" where
  "count_le k s = (unat (num_pressed s) \<le> k \<and> (if timer_running s then num_pressed s \<noteq> 0 else True))"

lemma unat_inc: "unat (a::c_uint) \<le> k \<Longrightarrow> Suc k < 4294967296 \<Longrightarrow> unat (a + 1) = Suc (unat a)"
  by (simp add: unat_word_ariths)

lemma inc_nonzero: "unat (a::c_uint) \<le> k \<Longrightarrow> Suc k < 4294967296 \<Longrightarrow> a + 1 \<noteq> 0"
  using unat_inc [of a k] by (cases "a + 1 = 0") simp_all

lemma button_changed_count_le:
  assumes "Suc k < 4294967296" "count_le k s" "fst (button_changed lim s ts inp) = Continue s'"
  shows "count_le (Suc k) s'"
  using assms unat_inc [of "num_pressed s" k] inc_nonzero [of "num_pressed s" k]
  by (auto simp: button_changed_def count_le_def split: button_input.splits if_splits)

lemma timer_timed_out_count_le:
  assumes "count_le k s" "fst (timer_timed_out s inp) = Continue s'"
  shows "count_le k s'"
  using assms by (auto simp: timer_timed_out_def count_le_def split: timer_input.splits)

lemma count_le_Suc: "count_le k s \<Longrightarrow> count_le (Suc k) s"
  by (simp add: count_le_def)

lemma iteration_count_le:
  assumes "Suc k < 4294967296" "count_le k s" "fst (iteration lim s w) = Continue s'"
  shows "count_le (Suc k) s'"
  using assms(3)
proof (cases rule: iteration_cases)
  case 1
  then show ?thesis using assms(2) by (simp add: count_le_Suc)
next
  case (2 ts inp)
  then show ?thesis using assms(1,2) by (rule button_changed_count_le [rotated 2])
next
  case (3 inp)
  then show ?thesis using assms(2) by (auto dest: timer_timed_out_count_le count_le_Suc)
next
  case (4 ts inp s1 inp')
  have "count_le (Suc k) s1" using assms(1,2) 4(1) by (rule button_changed_count_le)
  then show ?thesis using 4(2) by (rule timer_timed_out_count_le)
qed

lemma run_state_count_le:
  "k + length ws < 4294967296 \<Longrightarrow> count_le k s \<Longrightarrow> count_le (k + length ws) (run_state lim s ws)"
proof (induction ws arbitrary: s k)
  case Nil
  then show ?case by simp
next
  case (Cons w ws)
  have k: "Suc k < 4294967296" "Suc k + length ws < 4294967296" using Cons.prems(1) by simp_all
  have m: "count_le (k + length (w # ws)) s" using Cons.prems(2) by (simp add: count_le_def)
  show ?case
  proof (cases "fst (iteration lim s w)")
    case (Continue s')
    then have "count_le (Suc k) s'" using Cons.prems(2) k(1) iteration_count_le by blast
    then have "count_le (Suc k + length ws) (run_state lim s' ws)" using k(2) by (rule Cons.IH [rotated])
    then show ?thesis using Continue by simp
  qed (use m in simp_all)
qed

lemma count_ok_start: "count_ok lim start_state"
  by (simp add: count_ok_def start_state_def)

lemma count_le_start: "count_le 0 start_state"
  by (simp add: count_le_def start_state_def)

text \<open>
  Claim C3, as the code has it. In every state the loop reaches from the start state,
  the press count is at least 1 while \<open>timer_running\<close> is true (with a click-count
  limit above 0, or with the limit 0 on any run of fewer than \<open>2 ^ 32\<close> wakeups, the
  counter being an \<open>unsigned\<close>). The count need not be 0 when \<open>timer_running\<close> is
  false: the timer branch clears \<open>timer_running\<close> and leaves the count as it is, and the
  next pressed edge, finding no timer running, sets it to 1.
\<close>

theorem timer_running_press_count:
  assumes "g_click_count_limit \<noteq> 0 \<or> length ws < 2 ^ 32"
  shows "(timer_running (run_state g_click_count_limit start_state ws)
            \<longrightarrow> 1 \<le> num_pressed (run_state g_click_count_limit start_state ws))
         \<and> (fst (timer_timed_out s TimerExpired) = Continue (s\<lparr>timer_running := False\<rparr>))
         \<and> (\<not> timer_running s \<and> pressed \<noteq> 0
              \<longrightarrow> fst (button_changed g_click_count_limit s timestamp (ButtonLevel pressed))
                  = Continue (s\<lparr>button_down := True, num_pressed := 1, timer_running := True,
                                  pressed_at := timestamp\<rparr>))"
proof -
  let ?s = "run_state g_click_count_limit start_state ws"
  have "timer_running ?s \<Longrightarrow> num_pressed ?s \<noteq> 0"
  proof (cases "g_click_count_limit \<noteq> 0")
    case True
    assume "timer_running ?s"
    then show ?thesis
      using run_state_count_ok [OF True count_ok_start, of ws] by (simp add: count_ok_def)
  next
    case False
    assume t: "timer_running ?s"
    from False assms have "0 + length ws < 4294967296" by simp
    from run_state_count_le [OF this count_le_start, of g_click_count_limit] t
    show ?thesis by (simp add: count_le_def)
  qed
  then have "timer_running ?s \<longrightarrow> 1 \<le> num_pressed ?s" by (auto simp: word_one_le)
  then show ?thesis by (simp add: timer_timed_out_def button_changed_def)
qed

theorem timer_running_press_count_witness:
  "(8 :: c_uint) \<noteq> 0
   \<and> timer_running (run_state 8 start_state [press 1000, release 1100, press 1200])
   \<and> num_pressed (run_state 8 start_state [press 1000, release 1100, press 1200]) = 2
   \<and> 1 \<le> num_pressed (run_state 8 start_state [press 1000, release 1100, press 1200])
   \<and> \<not> timer_running (run_state 8 start_state [press 1000, release 1100, timer_fired])
   \<and> fst (button_changed 8 (run_state 8 start_state [press 1000, release 1100, timer_fired]) 2000 (ButtonLevel 1))
       = Continue \<lparr>pressed_at = 2000, timer_running = True, button_down = True, num_pressed = 1\<rparr>"
  using timer_running_press_count [of 8 "[press 1000, release 1100, press 1200]"
      "run_state 8 start_state [press 1000, release 1100, timer_fired]" 1 2000]
  by (simp add: fsm_defs)

text \<open>
  The claim as it is written fails in its second half: after one click and the expiry
  of the timer, \<open>timer_running\<close> is false and the press count is still 1.
\<close>

theorem press_count_stale_counterexample:
  "\<not> timer_running (run_state 8 start_state [press 1000, release 1100, timer_fired])
   \<and> num_pressed (run_state 8 start_state [press 1000, release 1100, timer_fired]) \<noteq> 0"
  by (simp add: fsm_defs)

text \<open>
  The bound on the length of the run is needed for the limit 0: after \<open>2 ^ 32\<close> pressed
  edges in a row the timer runs and the counter is back at 0.
\<close>

lemma run_state_presses:
  "run_state 0 \<lparr>pressed_at = 7, timer_running = True, button_down = True, num_pressed = k\<rparr>
     (replicate n (press 7))
   = \<lparr>pressed_at = 7, timer_running = True, button_down = True, num_pressed = k + of_nat n\<rparr>"
  by (induction n arbitrary: k) (simp_all add: fsm_defs add.assoc add.commute)

lemma press_count_wraps:
  "timer_running (run_state 0 start_state (replicate (2 ^ 32) (press 7)))
   \<and> num_pressed (run_state 0 start_state (replicate (2 ^ 32) (press 7))) = 0"
proof -
  have "replicate (2 ^ 32) (press 7) = press 7 # replicate (2 ^ 32 - 1) (press 7)"
    by (simp add: replicate_Suc [symmetric] del: replicate_Suc)
  moreover have "fst (iteration 0 start_state (press 7))
    = Continue \<lparr>pressed_at = 7, timer_running = True, button_down = True, num_pressed = 1\<rparr>"
    by (simp add: fsm_defs)
  moreover have "1 + of_nat (2 ^ 32 - 1) = (0 :: c_uint)"
    by simp
  ultimately have "run_state 0 start_state (replicate (2 ^ 32) (press 7))
    = \<lparr>pressed_at = 7, timer_running = True, button_down = True, num_pressed = 0\<rparr>"
    using run_state_presses [of 1 "2 ^ 32 - 1"] by simp
  then show ?thesis by simp
qed

text \<open>
  Claim C4, as the code has it. With a click-count limit above 0 the press count never
  passes the limit in a state the loop reaches. A pressed edge that arrives while the
  timer runs and the count is at the limit leaves the count as it is, calls the
  DOWN handler and arms the timer again for \<open>CLICK_TIMEOUT_MS\<close>.
\<close>

theorem press_count_within_limit:
  assumes "g_click_count_limit \<noteq> 0"
  shows "num_pressed (run_state g_click_count_limit start_state ws) \<le> g_click_count_limit
         \<and> (timer_running s \<and> num_pressed s = g_click_count_limit \<and> pressed \<noteq> 0
              \<longrightarrow> button_changed g_click_count_limit s timestamp (ButtonLevel pressed)
                  = (Continue (s\<lparr>button_down := True, num_pressed := g_click_count_limit,
                                   timer_running := True, pressed_at := timestamp\<rparr>),
                     [OnDown, TimerSettime (CLICK_TIMEOUT_MS * 1000 * 1000)]))"
  using run_state_count_ok [OF assms count_ok_start, of ws] assms
  by (auto simp: count_ok_def button_changed_def)

theorem press_count_within_limit_witness:
  "(2 :: c_uint) \<noteq> 0
   \<and> num_pressed (run_state 2 start_state [press 1000, release 1050, press 1100, release 1150, press 1200]) \<le> 2
   \<and> timer_running (run_state 2 start_state [press 1000, release 1050, press 1100, release 1150])
   \<and> num_pressed (run_state 2 start_state [press 1000, release 1050, press 1100, release 1150]) = 2
   \<and> button_changed 2 (run_state 2 start_state [press 1000, release 1050, press 1100, release 1150])
        1200 (ButtonLevel 1)
      = (Continue \<lparr>pressed_at = 1200, timer_running = True, button_down = True, num_pressed = 2\<rparr>,
         [OnDown, TimerSettime 400000000])"
  using press_count_within_limit [of 2 "[press 1000, release 1050, press 1100, release 1150, press 1200]"
      "run_state 2 start_state [press 1000, release 1050, press 1100, release 1150]" 1 1200]
  by (simp add: fsm_defs)

text \<open>
  The claim as it is written, for every pressed edge that finds the count at the limit,
  fails when no timer runs: the count left over from the last click window is at the
  limit 2, and the pressed edge sets it to 1.
\<close>

theorem down_at_limit_counterexample:
  "(2 :: c_uint) \<noteq> 0
   \<and> num_pressed (run_state 2 start_state
         [press 1000, release 1050, press 1100, release 1150, timer_fired]) = 2
   \<and> num_pressed (run_state 2 start_state
         ([press 1000, release 1050, press 1100, release 1150, timer_fired] @ [press 3000]))
       \<noteq> num_pressed (run_state 2 start_state
         [press 1000, release 1050, press 1100, release 1150, timer_fired])"
  by (simp add: fsm_defs)

text \<open>
  A trace has its HOLD calls behind UP calls when every \<open>OnHold\<close> in it is directly
  preceded by an \<open>OnUp\<close> of the same iteration.
\<close>

definition up_before_hold :: "(nat \<times> callout) list \<Rightarrow> bool" where
  "up_before_hold tr =
     (\<forall>i < length tr. \<forall>k n t. tr ! i = (k, OnHold n t) \<longrightarrow> 0 < i \<and> tr ! (i - 1) = (k, OnUp))"

lemma up_before_hold_append:
  assumes "up_before_hold xs" "up_before_hold ys"
  shows "up_before_hold (xs @ ys)"
  unfolding up_before_hold_def
proof (intro allI impI)
  fix i k n t
  assume i: "i < length (xs @ ys)" and h: "(xs @ ys) ! i = (k, OnHold n t)"
  show "0 < i \<and> (xs @ ys) ! (i - 1) = (k, OnUp)"
  proof (cases "i < length xs")
    case True
    then have "xs ! i = (k, OnHold n t)" using h by (simp add: nth_append)
    then have "0 < i \<and> xs ! (i - 1) = (k, OnUp)"
      using assms(1) True unfolding up_before_hold_def by blast
    then show ?thesis using True by (auto simp: nth_append)
  next
    case False
    define j where "j = i - length xs"
    have j: "j < length ys" "ys ! j = (k, OnHold n t)" using False i h by (simp_all add: nth_append j_def)
    then have "0 < j \<and> ys ! (j - 1) = (k, OnUp)"
      using assms(2) unfolding up_before_hold_def by blast
    then show ?thesis using False by (auto simp: nth_append j_def)
  qed
qed

lemma up_before_hold_Nil: "up_before_hold []"
  by (simp add: up_before_hold_def)

lemma up_before_hold_button:
  "up_before_hold (map (Pair k) (snd (button_changed lim s ts inp)))"
  by (auto simp: up_before_hold_def button_changed_def less_Suc_eq nth_Cons'
      split: button_input.splits)

lemma up_before_hold_timer:
  "up_before_hold (map (Pair k) (snd (timer_timed_out s inp)))"
  by (auto simp: up_before_hold_def timer_timed_out_def split: timer_input.splits)

lemma up_before_hold_iteration:
  "up_before_hold (map (Pair k) (snd (iteration lim s w)))"
proof (cases w)
  case (PollReady b t)
  show ?thesis
  proof (cases b)
    case None
    then show ?thesis using PollReady up_before_hold_timer [of k s]
      by (cases t) (simp_all add: iteration_Ready up_before_hold_Nil)
  next
    case (Some bi)
    obtain ts inp where bi: "bi = (ts, inp)" by (cases bi)
    show ?thesis
      using PollReady Some bi up_before_hold_button [of k lim s ts inp]
        up_before_hold_append [OF up_before_hold_button [of k lim s ts inp] up_before_hold_timer]
      by (cases "fst (button_changed lim s ts inp)"; cases t) (simp_all add: iteration_Ready)
  qed
qed (simp_all add: iteration_def up_before_hold_Nil)

lemma up_before_hold_run_trace: "up_before_hold (run_trace lim k s ws)"
proof (induction ws arbitrary: k s)
  case Nil
  show ?case by (simp add: up_before_hold_Nil)
next
  case (Cons w ws)
  show ?case
    by (cases "fst (iteration lim s w)")
       (simp_all add: up_before_hold_append up_before_hold_iteration Cons.IH up_before_hold_Nil)
qed

text \<open>
  Claim C8. In the callouts of any run of the loop from the start state, every call of
  the HOLD handler is directly preceded by the call of the UP handler made in the same
  iteration, that is for the same release edge: no other callout lies between them.
\<close>

theorem hold_preceded_by_up:
  assumes "i < length (run_trace g_click_count_limit 0 start_state ws)"
    and "run_trace g_click_count_limit 0 start_state ws ! i = (k, OnHold n t)"
  shows "0 < i \<and> run_trace g_click_count_limit 0 start_state ws ! (i - 1) = (k, OnUp)"
  using up_before_hold_run_trace [of g_click_count_limit 0 start_state ws] assms
  unfolding up_before_hold_def by blast

theorem hold_preceded_by_up_witness:
  "3 < length (run_trace 8 0 start_state [press 1000, release 1600])
   \<and> run_trace 8 0 start_state [press 1000, release 1600] ! 3 = (1, OnHold 1 600)
   \<and> run_trace 8 0 start_state [press 1000, release 1600] ! (3 - 1) = (1, OnUp)"
  using hold_preceded_by_up [of 3 8 "[press 1000, release 1600]" 1 1 600]
  by (simp add: fsm_defs)

subsection \<open>The configuration reader\<close>

text \<open>
  Induction over the rounds of the loop for a lookup that returns, one case for each
  way through the body.
\<close>

lemma scan_lines_induct [consumes 1, case_names NoLine ReadFailed Skipped Syntax Found TooLong Other]:
  assumes "scan_lines value_name has_args n e f currentLine ws = Some y"
    and "\<And>f currentLine ws. read_line e f BUFFER_SIZE = Some NoLine \<Longrightarrow> P f currentLine ws (None, ws)"
    and "\<And>f currentLine ws y. read_line e f BUFFER_SIZE = Some ReadFailed
           \<Longrightarrow> P [] currentLine ws y \<Longrightarrow> P f currentLine ws y"
    and "\<And>f currentLine ws y line rest. read_line e f BUFFER_SIZE = Some (Line line rest)
           \<Longrightarrow> parse_line has_args line = LineSkipped
           \<Longrightarrow> P rest (currentLine + 1) ws y \<Longrightarrow> P f currentLine ws y"
    and "\<And>f currentLine ws y line rest. read_line e f BUFFER_SIZE = Some (Line line rest)
           \<Longrightarrow> parse_line has_args line = LineSyntaxError
           \<Longrightarrow> P rest (currentLine + 1) (ws @ [UnexpectedSyntax (currentLine + 1)]) y
           \<Longrightarrow> P f currentLine ws y"
    and "\<And>f currentLine ws line rest val argument.
           read_line e f BUFFER_SIZE = Some (Line line rest)
           \<Longrightarrow> parse_line has_args line = LineEntry value_name val argument
           \<Longrightarrow> length val < n \<Longrightarrow> length argument < n
           \<Longrightarrow> P f currentLine ws (Some (val, argument), ws)"
    and "\<And>f currentLine ws y line rest val argument.
           read_line e f BUFFER_SIZE = Some (Line line rest)
           \<Longrightarrow> parse_line has_args line = LineEntry value_name val argument
           \<Longrightarrow> \<not> (length val < n \<and> length argument < n)
           \<Longrightarrow> P rest (currentLine + 1) (ws @ [TooLongValue (currentLine + 1)]) y
           \<Longrightarrow> P f currentLine ws y"
    and "\<And>f currentLine ws y line rest name val argument.
           read_line e f BUFFER_SIZE = Some (Line line rest)
           \<Longrightarrow> parse_line has_args line = LineEntry name val argument
           \<Longrightarrow> name \<noteq> value_name
           \<Longrightarrow> P rest (currentLine + 1) ws y \<Longrightarrow> P f currentLine ws y"
  shows "P f currentLine ws y"
proof -
  define Q where "Q = (\<lambda>value_name' has_args' n' e' f currentLine ws y.
     value_name' = value_name \<and> has_args' = has_args \<and> n' = n \<and> e' = e \<longrightarrow> P f currentLine ws y)"
  have "Q value_name has_args n e f currentLine ws y"
  proof (rule scan_lines.raw_induct [where P = Q, OF _ assms(1)])
    fix scan value_name' has_args' n' e' f currentLine ws y
    assume ih: "\<And>value_name' has_args' n' e' f currentLine ws y.
        scan value_name' has_args' n' e' f currentLine ws = Some y
        \<Longrightarrow> Q value_name' has_args' n' e' f currentLine ws y"
      and st: "(case read_line e' f BUFFER_SIZE of
        None \<Rightarrow> None
      | Some NoLine \<Rightarrow> Some (None, ws)
      | Some ReadFailed \<Rightarrow> scan value_name' has_args' n' e' [] currentLine ws
      | Some (Line line rest) \<Rightarrow>
          (case parse_line has_args' line of
             LineSkipped \<Rightarrow> scan value_name' has_args' n' e' rest (currentLine + 1) ws
           | LineSyntaxError \<Rightarrow>
               scan value_name' has_args' n' e' rest (currentLine + 1)
                 (ws @ [UnexpectedSyntax (currentLine + 1)])
           | LineEntry name val argument \<Rightarrow>
               if name = value_name' then
                 (if length val < n' \<and> length argument < n' then Some (Some (val, argument), ws)
                  else scan value_name' has_args' n' e' rest (currentLine + 1)
                         (ws @ [TooLongValue (currentLine + 1)]))
               else scan value_name' has_args' n' e' rest (currentLine + 1) ws)) = Some y"
    show "Q value_name' has_args' n' e' f currentLine ws y"
      unfolding Q_def
    proof (intro impI, elim conjE)
      assume eq: "value_name' = value_name" "has_args' = has_args" "n' = n" "e' = e"
      have ih': "\<And>f currentLine ws y. scan value_name has_args n e f currentLine ws = Some y
          \<Longrightarrow> P f currentLine ws y"
        using ih unfolding Q_def by blast
      note st' = st [unfolded eq]
      show "P f currentLine ws y"
      proof (cases "read_line e f BUFFER_SIZE")
        case None
        then show ?thesis using st' by simp
      next
        case (Some lr)
        show ?thesis
        proof (cases lr)
          case NoLine
          then have "y = (None, ws)" using st' Some by simp
          then show ?thesis using assms(2) Some NoLine by simp
        next
          case ReadFailed
          then have "scan value_name has_args n e [] currentLine ws = Some y"
            using st' Some by simp
          then have "P [] currentLine ws y" by (rule ih')
          then show ?thesis using assms(3) Some ReadFailed by simp
        next
          case (Line line rest)
          note rl = Some [unfolded Line]
          show ?thesis
          proof (cases "parse_line has_args line")
            case LineSkipped
            then have "scan value_name has_args n e rest (currentLine + 1) ws = Some y"
              using st' rl by simp
            then have "P rest (currentLine + 1) ws y" by (rule ih')
            then show ?thesis using assms(4) [OF rl LineSkipped] by simp
          next
            case LineSyntaxError
            then have "scan value_name has_args n e rest (currentLine + 1)
                (ws @ [UnexpectedSyntax (currentLine + 1)]) = Some y"
              using st' rl by simp
            then have "P rest (currentLine + 1) (ws @ [UnexpectedSyntax (currentLine + 1)]) y"
              by (rule ih')
            then show ?thesis using assms(5) [OF rl LineSyntaxError] by simp
          next
            case (LineEntry name val argument)
            show ?thesis
            proof (cases "name = value_name")
              case True
              note le = LineEntry [unfolded True]
              show ?thesis
              proof (cases "length val < n \<and> length argument < n")
                case t: True
                then have "y = (Some (val, argument), ws)"
                  using st' rl le by simp
                then show ?thesis using assms(6) [OF rl le] t by simp
              next
                case False
                then have "scan value_name has_args n e rest (currentLine + 1)
                    (ws @ [TooLongValue (currentLine + 1)]) = Some y"
                  using st' rl le by auto
                then have "P rest (currentLine + 1) (ws @ [TooLongValue (currentLine + 1)]) y"
                  by (rule ih')
                then show ?thesis using assms(7) [OF rl le False] by simp
              qed
            next
              case False
              then have "scan value_name has_args n e rest (currentLine + 1) ws = Some y"
                using st' rl LineEntry by simp
              then have "P rest (currentLine + 1) ws y" by (rule ih')
              then show ?thesis using assms(8) [OF rl LineEntry False] by simp
            qed
          qed
        qed
      qed
    qed
  qed
  then show ?thesis by (simp add: Q_def)
qed

lemma take_minus_dropWhile: "take (length p - length (dropWhile Q p)) p = takeWhile Q p"
proof -
  have "length (takeWhile Q p) + length (dropWhile Q p) = length p"
    unfolding length_append [symmetric] by simp
  then have "length p - length (dropWhile Q p) = length (takeWhile Q p)"
    by linarith
  then show ?thesis by (simp add: takeWhile_eq_take [symmetric])
qed

lemma line_rest_head: "line_rest buffer \<noteq> [] \<Longrightarrow> \<not> is_ws (hd (line_rest buffer))"
  unfolding line_rest_def skip_ws_def by (rule hd_dropWhile)

lemma line_fields_name:
  assumes "p \<noteq> []" "\<not> is_ws (hd p)"
  shows "fst (line_fields has_args p) \<noteq> []"
proof (cases "strpbrk_ws p")
  case None
  then show ?thesis using assms by (simp add: line_fields_def)
next
  case (Some t)
  then have t: "t = dropWhile (\<lambda>c. \<not> is_ws c) p"
    by (auto simp: strpbrk_ws_def split: list.splits)
  have "takeWhile (\<lambda>c. \<not> is_ws c) p \<noteq> []"
    using assms by (cases p) simp_all
  then have "take (length p - length t) p \<noteq> []"
    unfolding t take_minus_dropWhile .
  then show ?thesis using Some
    by (auto simp: line_fields_def Let_def split: option.splits)
qed

lemma parse_line_no_syntax_error: "parse_line has_args buffer \<noteq> LineSyntaxError"
proof (cases "1 < length (line_rest buffer)")
  case True
  then have ne: "line_rest buffer \<noteq> []" by auto
  have "fst (line_fields has_args (line_rest buffer)) \<noteq> []"
    using ne line_rest_head [OF ne] by (rule line_fields_name)
  then show ?thesis using True by (simp add: parse_line_def Let_def case_prod_beta)
next
  case False
  then show ?thesis by (simp add: parse_line_def Let_def)
qed

lemma scan_lines_no_syntax_warning:
  assumes "scan_lines value_name has_args n e f currentLine ws = Some y"
  shows "UnexpectedSyntax k \<notin> set ws \<longrightarrow> UnexpectedSyntax k \<notin> set (snd y)"
  using assms
proof (induction rule: scan_lines_induct)
  case (Syntax f currentLine ws y line rest)
  then show ?case using parse_line_no_syntax_error by blast
qed simp_all

lemma warnings_read_config_value:
  assumes "read_config_value conf value_name has_args n default_value = Some r"
  shows "UnexpectedSyntax k \<notin> set (warnings r)"
proof (cases conf)
  case None
  then show ?thesis using assms by (auto simp: read_config_value_def)
next
  case (Some fe)
  obtain f e where fe: "fe = (f, e)" by (cases fe)
  obtain y where y: "scan_lines value_name has_args n e f 0 [] = Some y"
    using assms Some fe by (auto simp: read_config_value_def split: option.splits)
  have "UnexpectedSyntax k \<notin> set (snd y)"
    using scan_lines_no_syntax_warning [OF y, of k] by simp
  then show ?thesis using assms Some fe y
    by (auto simp: read_config_value_def split: option.splits prod.splits)
qed

text \<open>
  Claim C9. The branch of the reader that warns of unexpected syntax is never taken.
  What is left of a line after the cut at \<open>#\<close>, the cut at the newline and the
  skipping of leading spaces and tabs starts, when it is longer than one character,
  with a character that is no space and no tab; so the name parsed from it is not
  empty, no line is parsed to a syntax error, and no lookup that returns has written
  the warning (one that does not return has parsed lines in the same way).
\<close>

theorem unexpected_syntax_unreachable:
  "parse_line has_args buffer \<noteq> LineSyntaxError
   \<and> (1 < length (line_rest buffer)
        \<longrightarrow> \<not> is_ws (hd (line_rest buffer))
            \<and> fst (line_fields has_args (line_rest buffer)) \<noteq> [])
   \<and> (case read_config_value conf value_name has_args n default_value of
         None \<Rightarrow> True
       | Some r \<Rightarrow> UnexpectedSyntax k \<notin> set (warnings r))"
proof -
  have "1 < length (line_rest buffer)
        \<Longrightarrow> \<not> is_ws (hd (line_rest buffer))
            \<and> fst (line_fields has_args (line_rest buffer)) \<noteq> []"
  proof -
    assume "1 < length (line_rest buffer)"
    then have ne: "line_rest buffer \<noteq> []" by auto
    show ?thesis using line_rest_head [OF ne] line_fields_name [OF ne] by simp
  qed
  moreover have "case read_config_value conf value_name has_args n default_value of
         None \<Rightarrow> True
       | Some r \<Rightarrow> UnexpectedSyntax k \<notin> set (warnings r)"
    using warnings_read_config_value [of conf value_name has_args n default_value]
    by (simp split: option.splits)
  ultimately show ?thesis using parse_line_no_syntax_error by blast
qed

theorem unexpected_syntax_unreachable_witness:
  "1 < length (line_rest ''  CLICK_1 /bin/echo one # first\<newline>'')
   \<and> line_rest ''  CLICK_1 /bin/echo one # first\<newline>'' = ''CLICK_1 /bin/echo one ''
   \<and> \<not> is_ws (hd (line_rest ''  CLICK_1 /bin/echo one # first\<newline>''))
   \<and> fst (line_fields True (line_rest ''  CLICK_1 /bin/echo one # first\<newline>'')) = ''CLICK_1''
   \<and> parse_line True ''  CLICK_1 /bin/echo one # first\<newline>''
       = LineEntry ''CLICK_1'' ''/bin/echo'' ''one ''
   \<and> read_config_value
        (Some ('' x\<newline>  CLICK_1 /bin/echo one # first\<newline>'', EndOfFile))
        ''CLICK_1'' True 4096 ''#''
       = Some \<lparr>found = True, dst = ''/bin/echo'', args = ''one '', warnings = []\<rparr>"
  using unexpected_syntax_unreachable [of True "''  CLICK_1 /bin/echo one # first\<newline>''" 1
      "Some ('' x\<newline>  CLICK_1 /bin/echo one # first\<newline>'', EndOfFile)" "''CLICK_1''" 4096 "''#''"]
  by (simp add: cfg_defs)

lemma line_rest_no_hash: "CHR ''#'' \<notin> set (line_rest buffer)"
proof
  assume "CHR ''#'' \<in> set (line_rest buffer)"
  then have "CHR ''#'' \<in> set (takeWhile (\<lambda>c. c \<noteq> CHR ''#'') (c_str buffer))"
    unfolding line_rest_def skip_ws_def by (auto dest!: set_dropWhileD set_takeWhileD)
  then show False by (auto dest: set_takeWhileD)
qed

lemma strpbrk_ws_subset: "strpbrk_ws p = Some t \<Longrightarrow> set t \<subseteq> set p"
  by (auto simp: strpbrk_ws_def split: list.splits dest: set_dropWhileD)

lemma line_fields_subset:
  assumes "line_fields has_args p = (name, val, argument)"
  shows "set val \<subseteq> set p \<and> set argument \<subseteq> set p"
proof (cases "strpbrk_ws p")
  case None
  then show ?thesis using assms by (simp add: line_fields_def)
next
  case (Some t)
  have t: "set (skip_ws t) \<subseteq> set p"
    using strpbrk_ws_subset [OF Some] by (auto simp: skip_ws_def dest: set_dropWhileD)
  show ?thesis
  proof (cases "has_args \<and> strpbrk_ws (skip_ws t) \<noteq> None")
    case True
    then obtain a1 where a1: "strpbrk_ws (skip_ws t) = Some a1" by auto
    have "set (skip_ws a1) \<subseteq> set (skip_ws t)"
      using strpbrk_ws_subset [OF a1] by (auto simp: skip_ws_def dest: set_dropWhileD)
    moreover have "set (take (length (skip_ws t) - length a1) (skip_ws t)) \<subseteq> set (skip_ws t)"
      by (rule set_take_subset)
    ultimately show ?thesis using assms Some True a1 t
      by (auto simp: line_fields_def Let_def)
  next
    case False
    then show ?thesis using assms Some t
      by (auto simp: line_fields_def Let_def split: option.splits if_splits)
  qed
qed

lemma parse_line_no_hash:
  assumes "parse_line has_args buffer = LineEntry name val argument"
  shows "CHR ''#'' \<notin> set val \<and> CHR ''#'' \<notin> set argument"
proof -
  from assms have "line_fields has_args (line_rest buffer) = (name, val, argument)"
    by (auto simp: parse_line_def Let_def split: if_splits prod.splits)
  from line_fields_subset [OF this] line_rest_no_hash [of buffer] show ?thesis by auto
qed

lemma read_line_Nil:
  "read_line e [] BUFFER_SIZE = Some (case e of EndOfFile \<Rightarrow> NoLine | ReadError \<Rightarrow> ReadFailed)"
  by (cases e) (simp_all add: read_line_def BUFFER_SIZE_def MAX_PATH_LENGTH_def)

lemma file_lines_Nil: "file_lines e [] = []"
  by (cases e) (simp_all add: file_lines.simps [of _ "[]"] read_line_Nil)

lemma file_lines_NoLine: "read_line e f BUFFER_SIZE = Some NoLine \<Longrightarrow> file_lines e f = []"
  by (simp add: file_lines.simps [of e f])

lemma file_lines_ReadFailed: "read_line e f BUFFER_SIZE = Some ReadFailed \<Longrightarrow> file_lines e f = []"
  by (simp add: file_lines.simps [of e f])

lemma file_lines_Line:
  "read_line e f BUFFER_SIZE = Some (Line line rest) \<Longrightarrow> file_lines e f = line # file_lines e rest"
  by (simp add: file_lines.simps [of e f])

lemma file_lines_Cons:
  assumes "file_lines e f = line # ls"
  shows "\<exists>rest. read_line e f BUFFER_SIZE = Some (Line line rest) \<and> file_lines e rest = ls"
  using assms
  by (auto simp: file_lines.simps [of e f] split: option.splits line_read.splits)

lemma scan_lines_found:
  assumes "scan_lines value_name has_args n e f currentLine ws = Some y"
  shows "(fst y \<noteq> None) = list_ex (binds value_name has_args n) (file_lines e f)"
  using assms
proof (induction rule: scan_lines_induct)
  case (NoLine f currentLine ws)
  then show ?case by (simp add: file_lines_NoLine)
next
  case (ReadFailed f currentLine ws y)
  then show ?case by (simp add: file_lines_ReadFailed file_lines_Nil)
next
  case (Syntax f currentLine ws y line rest)
  then show ?case using parse_line_no_syntax_error by blast
qed (auto simp: file_lines_Line binds_def)

lemma scan_lines_no_hash:
  assumes "scan_lines value_name has_args n e f currentLine ws = Some y"
  shows "fst y = Some (val, argument) \<longrightarrow> CHR ''#'' \<notin> set val \<and> CHR ''#'' \<notin> set argument"
  using assms
proof (induction rule: scan_lines_induct)
  case (Found f currentLine ws line rest v a)
  then show ?case using parse_line_no_hash by auto
qed simp_all

lemma scan_lines_ReadError:
  assumes "scan_lines value_name has_args n e f currentLine ws = Some y"
  shows "e = ReadError \<longrightarrow> fst y \<noteq> None"
  using assms
proof (induction rule: scan_lines_induct)
  case (NoLine f currentLine ws)
  then show ?case
    by (auto simp: read_line_def split: prod.splits if_splits stream_end.splits option.splits)
qed simp_all

lemma read_line_EndOfFile:
  "read_line EndOfFile f n \<noteq> None \<and> read_line EndOfFile f n \<noteq> Some ReadFailed"
  by (simp add: read_line_def skip_line_EndOfFile split: prod.splits)

lemma scan_lines_returns: "\<exists>y. scan_lines value_name has_args n EndOfFile f currentLine ws = Some y"
proof (induction f arbitrary: currentLine ws rule: length_induct)
  case (1 f)
  show ?case
  proof (cases "read_line EndOfFile f BUFFER_SIZE")
    case None
    then show ?thesis using read_line_EndOfFile by blast
  next
    case (Some lr)
    show ?thesis
    proof (cases lr)
      case NoLine
      then show ?thesis using Some by (subst scan_lines.simps) simp
    next
      case ReadFailed
      then show ?thesis using Some read_line_EndOfFile by blast
    next
      case (Line line rest)
      have "length rest < length f" using Some Line by (auto dest: read_line_shorter)
      then have ih: "\<And>c w. \<exists>y. scan_lines value_name has_args n EndOfFile rest c w = Some y"
        using 1 by blast
      show ?thesis
        using Some Line ih
        by (subst scan_lines.simps) (simp split: line_entry.splits)
    qed
  qed
qed

lemma scan_lines_skip:
  assumes "read_line e f BUFFER_SIZE = Some (Line line rest)"
    and "\<not> binds value_name has_args n line"
  shows "\<exists>ws'. scan_lines value_name has_args n e f currentLine ws
               = scan_lines value_name has_args n e rest (currentLine + 1) ws'"
  using assms
  by (subst scan_lines.simps) (auto simp: binds_def split: line_entry.splits)

lemma scan_lines_first:
  assumes "file_lines e f = pre @ line # post"
    and "list_all (\<lambda>l. \<not> binds value_name has_args n l) pre"
    and "parse_line has_args line = LineEntry value_name val argument"
    and "length val < n" "length argument < n"
  shows "\<exists>ws'. scan_lines value_name has_args n e f currentLine ws = Some (Some (val, argument), ws')"
  using assms(1,2)
proof (induction pre arbitrary: f currentLine ws)
  case Nil
  then obtain rest where "read_line e f BUFFER_SIZE = Some (Line line rest)"
    using file_lines_Cons [of e f line post] by auto
  then show ?case using assms(3,4,5)
    by (subst scan_lines.simps) simp
next
  case (Cons l pre)
  then obtain rest where r: "read_line e f BUFFER_SIZE = Some (Line l rest)"
    and fl: "file_lines e rest = pre @ line # post"
    using file_lines_Cons [of e f l "pre @ line # post"] by auto
  have nb: "\<not> binds value_name has_args n l" "list_all (\<lambda>l. \<not> binds value_name has_args n l) pre"
    using Cons.prems(2) by simp_all
  obtain ws' where "scan_lines value_name has_args n e f currentLine ws
               = scan_lines value_name has_args n e rest (currentLine + 1) ws'"
    using scan_lines_skip [OF r nb(1)] by blast
  then show ?case using Cons.IH [OF fl nb(2), of "currentLine + 1" ws'] by simp
qed

lemma read_config_value_cases:
  assumes "read_config_value conf value_name has_args n default_value = Some r"
  obtains "conf = None" "r = \<lparr>found = False, dst = default_value, args = [], warnings = []\<rparr>"
  | f e ws where "conf = Some (f, e)" "scan_lines value_name has_args n e f 0 [] = Some (None, ws)"
      "r = \<lparr>found = False, dst = default_value, args = [], warnings = ws\<rparr>"
  | f e val argument ws where "conf = Some (f, e)"
      "scan_lines value_name has_args n e f 0 [] = Some (Some (val, argument), ws)"
      "r = \<lparr>found = True, dst = val, args = (if has_args then argument else []), warnings = ws\<rparr>"
  using assms
  by (auto simp: read_config_value_def split: option.splits prod.splits)

lemma found_read_config_value:
  assumes "read_config_value conf value_name has_args n default_value = Some r"
  shows "found r = key_present conf value_name has_args n"
  using assms
proof (cases rule: read_config_value_cases)
  case 1
  then show ?thesis by (simp add: key_present_def)
next
  case (2 f e ws)
  then show ?thesis using scan_lines_found [OF 2(2)] by (simp add: key_present_def)
next
  case (3 f e val argument ws)
  then show ?thesis using scan_lines_found [OF 3(2)] by (simp add: key_present_def)
qed

lemma dst_read_config_value:
  assumes "read_config_value conf value_name has_args n default_value = Some r"
  shows "if found r then CHR ''#'' \<notin> set (dst r) else dst r = default_value"
  using assms
proof (cases rule: read_config_value_cases)
  case (3 f e val argument ws)
  then show ?thesis using scan_lines_no_hash [OF 3(2), of val argument] by simp
qed simp_all

lemma sentinel_iff_not_found:
  assumes "read_config_value conf value_name has_args n ''#'' = Some r"
  shows "starts_with_hash (dst r) = (\<not> found r)"
  using dst_read_config_value [OF assms]
  by (cases "dst r") (auto simp: starts_with_hash_def split: if_splits)

lemma read_config_value_returns:
  assumes "conf = None \<or> (\<exists>f. conf = Some (f, EndOfFile))"
  shows "\<exists>r. read_config_value conf value_name has_args n default_value = Some r"
proof (cases conf)
  case None
  then show ?thesis by (simp add: read_config_value_def)
next
  case (Some fe)
  then obtain f where f: "conf = Some (f, EndOfFile)" using assms by auto
  obtain y where "scan_lines value_name has_args n EndOfFile f 0 [] = Some y"
    using scan_lines_returns by blast
  then show ?thesis using f
    by (cases y) (auto simp: read_config_value_def split: option.splits)
qed

text \<open>
  Claim C10, as the code has it. A lookup with the default \<open>#\<close> in a file that cannot
  be opened, or that is read to its end, returns; and the value a lookup returns begins
  with \<open>#\<close> if and only if no line read from the file binds the key. A line binds the
  key when, cut at its first \<open>#\<close> and at its newline and without its leading spaces and
  tabs, it is longer than one character (a line that holds nothing but a key of one
  character is skipped), its text up to the first space or tab is the key, and its
  value and its argument are shorter than the caller's buffer (a line that names the
  key with a longer value is passed over with a warning). A value taken from the file
  contains no \<open>#\<close> at all, so the value \<open>#\<close> never stands for a configured value: the test
  for \<open>#\<close> in \<open>get_action_script\<close> is the test whether the lookup found a binding.
  Whether a lookup returns when a read of the file fails before its end is not part of
  the statement.
\<close>

theorem hash_sentinel:
  "(conf = None \<or> (\<exists>f. conf = Some (f, EndOfFile))
      \<longrightarrow> (\<exists>r. read_config_value conf value_name has_args n ''#'' = Some r))
   \<and> (\<forall>r. read_config_value conf value_name has_args n ''#'' = Some r
          \<longrightarrow> starts_with_hash (dst r) = (\<not> key_present conf value_name has_args n)
              \<and> (CHR ''#'' \<in> set (dst r)) = (\<not> key_present conf value_name has_args n))
   \<and> get_action_script conf action action_name n
     = (case read_config_value conf action_name True n ''#'' of
          None \<Rightarrow> None
        | Some r1 \<Rightarrow>
            (case (if key_present conf action_name True n then Some r1
                   else (case action of
                           A_CLICK \<Rightarrow> read_config_value conf CLICK_OTHER_VALUE_NAME True n ''#''
                         | A_HOLD \<Rightarrow> read_config_value conf HOLD_OTHER_VALUE_NAME True n ''#''
                         | A_DOWN \<Rightarrow> Some r1
                         | A_UP \<Rightarrow> Some r1
                         | A_COUNT \<Rightarrow> Some r1)) of
               None \<Rightarrow> None
             | Some r2 \<Rightarrow> Some (if found r2 then dst r2 else [], args r2)))"
proof -
  have a: "conf = None \<or> (\<exists>f. conf = Some (f, EndOfFile))
      \<longrightarrow> (\<exists>r. read_config_value conf value_name has_args n ''#'' = Some r)"
    using read_config_value_returns by blast
  have b: "\<forall>r. read_config_value conf value_name has_args n ''#'' = Some r
          \<longrightarrow> starts_with_hash (dst r) = (\<not> key_present conf value_name has_args n)
              \<and> (CHR ''#'' \<in> set (dst r)) = (\<not> key_present conf value_name has_args n)"
  proof (intro allI impI)
    fix r
    assume r: "read_config_value conf value_name has_args n ''#'' = Some r"
    show "starts_with_hash (dst r) = (\<not> key_present conf value_name has_args n)
              \<and> (CHR ''#'' \<in> set (dst r)) = (\<not> key_present conf value_name has_args n)"
      using sentinel_iff_not_found [OF r] found_read_config_value [OF r]
        dst_read_config_value [OF r]
      by (auto split: if_splits)
  qed
  have c: "get_action_script conf action action_name n
     = (case read_config_value conf action_name True n ''#'' of
          None \<Rightarrow> None
        | Some r1 \<Rightarrow>
            (case (if key_present conf action_name True n then Some r1
                   else (case action of
                           A_CLICK \<Rightarrow> read_config_value conf CLICK_OTHER_VALUE_NAME True n ''#''
                         | A_HOLD \<Rightarrow> read_config_value conf HOLD_OTHER_VALUE_NAME True n ''#''
                         | A_DOWN \<Rightarrow> Some r1
                         | A_UP \<Rightarrow> Some r1
                         | A_COUNT \<Rightarrow> Some r1)) of
               None \<Rightarrow> None
             | Some r2 \<Rightarrow> Some (if found r2 then dst r2 else [], args r2)))"
  proof (cases "read_config_value conf action_name True n ''#''")
    case None
    then show ?thesis by (simp add: get_action_script_def)
  next
    case (Some r1)
    note s1 = sentinel_iff_not_found [OF Some] and f1 = found_read_config_value [OF Some]
    show ?thesis
    proof (cases "key_present conf action_name True n")
      case True
      then show ?thesis using Some s1 f1 by (simp add: get_action_script_def)
    next
      case False
      have o: "\<And>k. (case read_config_value conf k True n ''#'' of None \<Rightarrow> None
                 | Some r2 \<Rightarrow> Some (if starts_with_hash (dst r2) then [] else dst r2, args r2))
              = (case read_config_value conf k True n ''#'' of None \<Rightarrow> None
                 | Some r2 \<Rightarrow> Some (if found r2 then dst r2 else [], args r2))"
        using sentinel_iff_not_found by (auto split: option.splits)
      show ?thesis
        using Some s1 f1 False o [of CLICK_OTHER_VALUE_NAME] o [of HOLD_OTHER_VALUE_NAME]
        by (cases action) (simp_all add: get_action_script_def)
    qed
  qed
  show ?thesis using a b c by blast
qed

theorem hash_sentinel_witness:
  "(\<exists>f. Some (''DOWN /bin/true # CLICK_1 /bin/false\<newline>'', EndOfFile) = Some (f, EndOfFile))
   \<and> key_present (Some (''DOWN /bin/true # CLICK_1 /bin/false\<newline>'', EndOfFile)) ''DOWN'' True 4096
   \<and> read_config_value (Some (''DOWN /bin/true # CLICK_1 /bin/false\<newline>'', EndOfFile))
        ''DOWN'' True 4096 ''#''
       = Some \<lparr>found = True, dst = ''/bin/true'', args = [], warnings = []\<rparr>
   \<and> \<not> key_present (Some (''DOWN /bin/true # CLICK_1 /bin/false\<newline>'', EndOfFile)) ''CLICK_1'' True 4096
   \<and> read_config_value (Some (''DOWN /bin/true # CLICK_1 /bin/false\<newline>'', EndOfFile))
        ''CLICK_1'' True 4096 ''#''
       = Some \<lparr>found = False, dst = ''#'', args = [], warnings = []\<rparr>
   \<and> get_action_script (Some (''DOWN /bin/true # CLICK_1 /bin/false\<newline>'', EndOfFile))
        A_CLICK ''CLICK_1'' 4096 = Some ([], [])"
  using hash_sentinel [of "Some (''DOWN /bin/true # CLICK_1 /bin/false\<newline>'', EndOfFile)"
      "''DOWN''" True 4096 A_DOWN "''DOWN''"]
    hash_sentinel [of "Some (''DOWN /bin/true # CLICK_1 /bin/false\<newline>'', EndOfFile)"
      "''CLICK_1''" True 4096 A_CLICK "''CLICK_1''"]
  by (simp add: key_present_def binds_def file_lines.simps cfg_defs res_defs)

text \<open>
  The lines that bind, spelled out, and the line with a key of one character.
\<close>

lemma binds_iff:
  "binds value_name has_args n line
   = (1 < length (line_rest line)
      \<and> fst (line_fields has_args (line_rest line)) = value_name
      \<and> length (fst (snd (line_fields has_args (line_rest line)))) < n
      \<and> length (snd (snd (line_fields has_args (line_rest line)))) < n)"
proof (cases "1 < length (line_rest line)")
  case True
  then have ne: "line_rest line \<noteq> []" by auto
  have "fst (line_fields has_args (line_rest line)) \<noteq> []"
    using line_rest_head [OF ne] line_fields_name [OF ne] by simp
  then show ?thesis using True
    by (simp add: binds_def parse_line_def Let_def case_prod_beta)
next
  case False
  then show ?thesis by (simp add: binds_def parse_line_def Let_def)
qed

lemma one_character_key:
  "\<not> binds ''K'' True 4096 ''K\<newline>''"
  "binds ''K'' True 4096 ''K x\<newline>''"
  "binds ''UP'' True 4096 ''UP\<newline>''"
  "read_config_value (Some (''K\<newline>'', EndOfFile)) ''K'' True 4096 ''#''
   = Some \<lparr>found = False, dst = ''#'', args = [], warnings = []\<rparr>"
  by (simp_all add: binds_def cfg_defs)

lemma fgets_whole: "NEWLINE \<notin> set xs \<Longrightarrow> length xs < n \<Longrightarrow> fgets n xs = (xs, [])"
  by (induction xs arbitrary: n) auto

lemma overlong_line:
  "parse_line True (''DOWN '' @ replicate 4096 (CHR ''a''))
   = LineEntry ''DOWN'' (replicate 4096 (CHR ''a'')) []"
  by (simp add: parse_line_def line_rest_def line_fields_def skip_ws_def strpbrk_ws_def is_ws_def
      WHITESPACE_CHARS_def c_str_def NUL_def NEWLINE_def takeWhile_eq_all_conv [THEN iffD2])

lemma overlong_read:
  "read_line EndOfFile (''DOWN '' @ replicate 4096 (CHR ''a'')) BUFFER_SIZE
   = Some (Line (''DOWN '' @ replicate 4096 (CHR ''a'')) [])"
  using fgets_whole [of "''DOWN '' @ replicate 4096 (CHR ''a'')" BUFFER_SIZE]
  by (simp add: read_line_def BUFFER_SIZE_def MAX_PATH_LENGTH_def NEWLINE_def)

text \<open>
  The claim as it is written, for a key that is present, fails for a key whose line
  holds too long a value: the only line of the file has the name \<open>DOWN\<close> and a value of
  4096 characters, and the lookup of \<open>DOWN\<close> for the action script returns \<open>#\<close>.
\<close>

theorem overlong_binding_counterexample:
  "line_named ''DOWN'' (''DOWN '' @ replicate 4096 (CHR ''a''))
   \<and> file_lines EndOfFile (''DOWN '' @ replicate 4096 (CHR ''a''))
       = [''DOWN '' @ replicate 4096 (CHR ''a'')]
   \<and> read_config_value (Some (''DOWN '' @ replicate 4096 (CHR ''a''), EndOfFile)) ''DOWN'' True
        MAX_PATH_LENGTH ''#''
       = Some \<lparr>found = False, dst = ''#'', args = [], warnings = [TooLongValue 1]\<rparr>"
proof -
  define f where "f = ''DOWN '' @ replicate 4096 (CHR ''a'')"
  have p: "parse_line True f = LineEntry ''DOWN'' (replicate 4096 (CHR ''a'')) []"
    unfolding f_def by (rule overlong_line)
  have r: "read_line EndOfFile f BUFFER_SIZE = Some (Line f [])"
    unfolding f_def by (rule overlong_read)
  have e: "read_line EndOfFile [] BUFFER_SIZE = Some NoLine"
    by (simp add: read_line_Nil)
  have l: "file_lines EndOfFile f = [f]"
    using file_lines_Line [OF r] by (simp add: file_lines_Nil)
  have "scan_lines ''DOWN'' True 4096 EndOfFile [] 1 [TooLongValue 1] = Some (None, [TooLongValue 1])"
    by (subst scan_lines.simps) (simp add: e)
  then have "scan_lines ''DOWN'' True 4096 EndOfFile f 0 [] = Some (None, [TooLongValue 1])"
    by (subst scan_lines.simps) (simp add: r p)
  then have d: "read_config_value (Some (f, EndOfFile)) ''DOWN'' True MAX_PATH_LENGTH ''#''
       = Some \<lparr>found = False, dst = ''#'', args = [], warnings = [TooLongValue 1]\<rparr>"
    by (simp add: read_config_value_def MAX_PATH_LENGTH_def)
  have "line_named ''DOWN'' f"
    by (simp add: line_named_def p)
  then show ?thesis
    using l d unfolding f_def by simp
qed

text \<open>
  Where the first read of the file fails (the configuration path names a directory),
  no lookup returns, and with it no call of \<open>execute_action\<close> that looks a key up.
\<close>

lemma scan_lines_stuck: "scan_lines value_name has_args n ReadError [] currentLine ws = None"
proof (cases "scan_lines value_name has_args n ReadError [] currentLine ws")
  case (Some y)
  have "list_ex (binds value_name has_args n) (file_lines ReadError [])"
    using scan_lines_found [OF Some] scan_lines_ReadError [OF Some] by simp
  then show ?thesis by (simp add: file_lines_Nil)
qed simp

lemma lookup_never_returns:
  "read_config_value (Some ([], ReadError)) value_name has_args n default_value = None"
  "execute_action g_full_time g_offset_time g_config_path dirname (Some ([], ReadError))
     A_DOWN click_count hold_time = None"
  by (simp_all add: read_config_value_def scan_lines_stuck execute_action_def
      get_action_script_path_def get_action_script_def get_action_name_def DOWN_VALUE_NAME_def
      Let_def)

subsection \<open>The action resolver\<close>

lemma parse_echo_one:
  "parse_line True ''CLICK_1 /bin/echo one'' = LineEntry ''CLICK_1'' ''/bin/echo'' ''one''"
  "parse_line True (''CLICK_1 /bin/echo one'' @ [NEWLINE]) = LineEntry ''CLICK_1'' ''/bin/echo'' ''one''"
  by (simp_all add: cfg_defs)

lemma not_named_not_binds: "\<not> line_named value_name l \<Longrightarrow> \<not> binds value_name True n l"
  by (auto simp: line_named_def binds_def split: line_entry.splits)

text \<open>
  Claim C1, as the code has it. When the configuration file contains the line
  \<open>CLICK_1 /bin/echo one\<close> (with its newline, or as a last line without one) and no line
  before it has the name \<open>CLICK_1\<close>, a click event with the click count 1 runs the
  command \<open>/bin/echo one\<close>: the value is \<open>/bin/echo\<close>, the text behind the value's
  first whitespace is the argument \<open>one\<close>, and a binding with an argument gets no click
  count appended.
\<close>

theorem echo_one_command:
  assumes "file_lines e f = pre @ line # post"
    and "line = ''CLICK_1 /bin/echo one'' \<or> line = ''CLICK_1 /bin/echo one'' @ [NEWLINE]"
    and "list_all (\<lambda>l. \<not> line_named ''CLICK_1'' l) pre"
  shows "execute_action g_full_time g_offset_time g_config_path dirname (Some (f, e)) A_CLICK 1 0
         = Some (ExecSystem ''/bin/echo one'')"
proof -
  have p: "parse_line True line = LineEntry ''CLICK_1'' ''/bin/echo'' ''one''"
    using assms(2) parse_echo_one by auto
  have nb: "list_all (\<lambda>l. \<not> binds ''CLICK_1'' True 4096 l) pre"
    using assms(3) by (induction pre) (simp_all add: not_named_not_binds)
  obtain ws where "scan_lines ''CLICK_1'' True 4096 e f 0 [] = Some (Some (''/bin/echo'', ''one''), ws)"
    using scan_lines_first [OF assms(1) nb p, of 0 "[]"] by auto
  then have r: "read_config_value (Some (f, e)) ''CLICK_1'' True 4096 ''#''
      = Some \<lparr>found = True, dst = ''/bin/echo'', args = ''one'', warnings = ws\<rparr>"
    by (simp add: read_config_value_def)
  have n: "get_action_name g_full_time g_offset_time A_CLICK 1 0 = ''CLICK_1''"
    by (simp add: get_action_name_def ABSOLUTE_MAX_CLICK_def fmt_u.simps digit_def)
  have s: "get_action_script (Some (f, e)) A_CLICK ''CLICK_1'' 4096 = Some (''/bin/echo'', ''one'')"
    by (simp add: get_action_script_def r starts_with_hash_def)
  show ?thesis
    by (simp add: execute_action_def get_action_script_path_def n s MAX_PATH_LENGTH_def Let_def)
qed

theorem echo_one_command_witness:
  "file_lines EndOfFile
     ''# buttons\<newline>DOWN /bin/true\<newline>CLICK_1 /bin/echo one\<newline>CLICK_1 /bin/false\<newline>''
     = [''# buttons\<newline>'', ''DOWN /bin/true\<newline>''] @ ''CLICK_1 /bin/echo one\<newline>'' # [''CLICK_1 /bin/false\<newline>'']
   \<and> ''CLICK_1 /bin/echo one\<newline>'' = ''CLICK_1 /bin/echo one'' @ [NEWLINE]
   \<and> list_all (\<lambda>l. \<not> line_named ''CLICK_1'' l) [''# buttons\<newline>'', ''DOWN /bin/true\<newline>'']
   \<and> execute_action False False ''/etc/inzown/button.conf'' (\<lambda>tmp. ''/etc/inzown'')
         (Some (''# buttons\<newline>DOWN /bin/true\<newline>CLICK_1 /bin/echo one\<newline>CLICK_1 /bin/false\<newline>'',
                EndOfFile))
         A_CLICK 1 0
       = Some (ExecSystem ''/bin/echo one'')"
  using echo_one_command [of EndOfFile
      "''# buttons\<newline>DOWN /bin/true\<newline>CLICK_1 /bin/echo one\<newline>CLICK_1 /bin/false\<newline>''"
      "[''# buttons\<newline>'', ''DOWN /bin/true\<newline>'']" "''CLICK_1 /bin/echo one\<newline>''"
      "[''CLICK_1 /bin/false\<newline>'']" False False "''/etc/inzown/button.conf''" "\<lambda>tmp. ''/etc/inzown''"]
  by (simp add: file_lines.simps line_named_def cfg_defs)

text \<open>
  The claim as it is written expects the command \<open>/bin/echo one 1\<close>. For the file that
  holds just this line the code runs \<open>/bin/echo one\<close>.
\<close>

theorem echo_one_counterexample:
  "execute_action False False ''/etc/inzown/button.conf'' (\<lambda>tmp. ''/etc/inzown'')
     (Some (''CLICK_1 /bin/echo one'', EndOfFile)) A_CLICK 1 0 = Some (ExecSystem ''/bin/echo one'')
   \<and> execute_action False False ''/etc/inzown/button.conf'' (\<lambda>tmp. ''/etc/inzown'')
     (Some (''CLICK_1 /bin/echo one'', EndOfFile)) A_CLICK 1 0 \<noteq> Some (ExecSystem ''/bin/echo one 1'')"
  by (simp add: res_defs cfg_defs)

subsection \<open>Start-up\<close>

text \<open>
  The comparison with \<open>INZOWN_BTN_CFG=\<close> covers 16 bytes, the 15 characters and the
  terminator of the literal. An entry with a value has a character of the value where
  the literal ends, so it never compares equal; the only entry that does is the one
  with the empty value, and then the path is read behind the end of the entry. The
  option \<open>--conf\<close> sets the path and keeps the environment from being read. The lookup
  of the click-count limit that follows leaves the path as it is.
\<close>

lemma strncmp_env_value:
  "c \<noteq> NUL \<Longrightarrow> strncmp ''INZOWN_BTN_CFG='' (''INZOWN_BTN_CFG='' @ c # cs) 16 \<noteq> 0"
  by (cases c) (auto simp: NUL_def)

lemma scan_env_value_unused:
  "c \<noteq> NUL \<Longrightarrow> scan_env beyond i [''INZOWN_BTN_CFG='' @ c # cs] path = path"
  using strncmp_env_value [of c cs] by simp

lemma scan_env_empty_value:
  "scan_env beyond i [''INZOWN_BTN_CFG=''] path = take MAX_PATH_LENGTH (beyond i)"
  by simp

lemma conf_option_wins:
  "map_sum id config_path (main_options strtoul beyond [''inzown-btn'', ''--conf'', p] envp)
   = Inr (take MAX_PATH_LENGTH p)"
  by (simp add: main_options_def initial_settings_def)

lemma main_setup_config_path:
  assumes "main_setup strtoul beyond fopen argv envp = Some r"
  shows "map_sum id config_path r = map_sum id config_path (main_options strtoul beyond argv envp)"
proof (cases "main_options strtoul beyond argv envp")
  case (Inl status)
  then show ?thesis using assms by (simp add: main_setup_def)
next
  case (Inr st1)
  then show ?thesis using assms
    by (cases "click_count_limit_specified st1")
       (auto simp: main_setup_def split: option.splits)
qed

text \<open>
  Claim C2 says that, without \<open>--conf\<close>, a path in \<open>INZOWN_BTN_CFG\<close> becomes the
  configuration path. The code does not do so: started without options and with
  \<open>INZOWN_BTN_CFG=/tmp/button.conf\<close> in the environment, \<open>main\<close> keeps the built-in
  path, looks the click-count limit up in the file at that path and, when the lookup
  returns, goes on to \<open>run\<close> with it.
\<close>

theorem env_path_ignored:
  "map_sum id config_path
     (main_options strtoul beyond [''inzown-btn''] [''INZOWN_BTN_CFG=/tmp/button.conf''])
   = Inr ''/etc/inzown/button.conf''
   \<and> map_option (map_sum id config_path)
       (main_setup strtoul beyond fopen [''inzown-btn''] [''INZOWN_BTN_CFG=/tmp/button.conf''])
     = map_option (\<lambda>x. Inr ''/etc/inzown/button.conf'')
         (read_config_uint strtoul (fopen ''/etc/inzown/button.conf'')
            CLICK_COUNT_LIMIT_VALUE_NAME DEFAULT_CLICK_COUNT_LIMIT)"
  by (simp add: main_setup_def main_options_def initial_settings_def split: option.splits)

end
